theory Spec2Isabelle
  imports Complex_Main "HOL-Library.AList"
begin

section \<open>JavaScript values\<close>

text \<open>
  The engine works on untyped JSON data (\<open>unknown\<close> in the TypeScript source).  A number is
  an IEEE double in the source; here a finite number is an exact rational and the three
  non-finite doubles are separate constructors.  The arithmetic below is therefore exact: it
  agrees with the source wherever the double operations are exact (in particular on integers
  of magnitude below \<open>2^53\<close>), there is no rounding, no overflow and no negative zero.
\<close>

datatype jsnum = Fin rat | PInf | NInf | NaN

text \<open>
  \<open>JDate\<close> carries the time value in epoch milliseconds (\<open>None\<close> is an invalid date).
  \<open>JObj\<close> is an object as the list of its own properties, \<open>JArr\<close> an array.
  \<open>JBuiltin\<close> stands for a value found on a prototype chain (a method such as
  \<open>toString\<close>, or a prototype object); the flag tells whether it is callable.
\<close>

datatype jsval =
    JUndefined
  | JNull
  | JBool bool
  | JNum jsnum
  | JStr string
  | JDate "int option"
  | JArr "jsval list"
  | JObj "(string \<times> jsval) list"
  | JBuiltin string bool

fun isFinite :: "jsnum \<Rightarrow> bool" where
  "isFinite (Fin r) = True"
| "isFinite _ = False"

subsection \<open>Strings\<close>

definition is_space :: "char \<Rightarrow> bool" where
  "is_space c = (c \<in> set [CHR 0x09, CHR 0x0A, CHR 0x0B, CHR 0x0C, CHR 0x0D, CHR '' ''])"

definition trim :: "string \<Rightarrow> string" where
  "trim s = rev (dropWhile is_space (rev (dropWhile is_space s)))"

definition is_digit :: "char \<Rightarrow> bool" where
  "is_digit c = (c \<in> set ''0123456789'')"

definition digit_value :: "char \<Rightarrow> nat" where
  "digit_value c = of_char c - 48"

definition digits_value :: "string \<Rightarrow> nat" where
  "digits_value s = foldl (\<lambda>a c. 10 * a + digit_value c) 0 s"

text \<open>\<open>s.split(c)\<close>: the pieces between the separators; never an empty list.\<close>

fun split_on :: "char \<Rightarrow> string \<Rightarrow> string list" where
  "split_on c [] = [[]]"
| "split_on c (x # xs) =
     (if x = c then [] # split_on c xs
      else (case split_on c xs of p # ps \<Rightarrow> (x # p) # ps | [] \<Rightarrow> [[x]]))"

definition digit_char :: "nat \<Rightarrow> char" where
  "digit_char d = ''0123456789'' ! d"

fun show_nat :: "nat \<Rightarrow> string" where
  "show_nat n = (if n < 10 then [digit_char n] else show_nat (n div 10) @ [digit_char (n mod 10)])"

declare show_nat.simps [simp del]

text \<open>\<open>n.toString()\<close> for an integer-valued number.\<close>

definition toString_int :: "int \<Rightarrow> string" where
  "toString_int i = (if i < 0 then CHR ''-'' # show_nat (nat (- i)) else show_nat (nat i))"

text \<open>\<open>s.padStart(2, '0')\<close>\<close>

definition padStart2 :: "string \<Rightarrow> string" where
  "padStart2 s = replicate (2 - length s) CHR ''0'' @ s"

section \<open>Time helpers of the compute engine\<close>

text \<open>\<open>TIME_REGEX = /^\d{1,2}:\d{2}(:\d{2})?$/\<close>, as a test on the pieces between the colons.\<close>

definition digits_n :: "nat \<Rightarrow> string \<Rightarrow> bool" where
  "digits_n n s = (length s = n \<and> list_all is_digit s)"

definition TIME_REGEX_test :: "string \<Rightarrow> bool" where
  "TIME_REGEX_test s =
     (case split_on CHR '':'' s of
        [h, m] \<Rightarrow> (digits_n 1 h \<or> digits_n 2 h) \<and> digits_n 2 m
      | [h, m, sec] \<Rightarrow> (digits_n 1 h \<or> digits_n 2 h) \<and> digits_n 2 m \<and> digits_n 2 sec
      | _ \<Rightarrow> False)"

text \<open>
  \<open>getHours\<close> and \<open>getMinutes\<close> of a valid date depend on the local time zone; the
  model reads them in UTC, the zone of the worker runtime.
\<close>

definition getHours :: "int \<Rightarrow> int" where
  "getHours ms = (ms div 3600000) mod 24"

definition getMinutes :: "int \<Rightarrow> int" where
  "getMinutes ms = (ms div 60000) mod 60"

text \<open>
  \<open>parseTimeToMinutes\<close>: \<open>None\<close> is the source's \<open>null\<close>.  On a string that passed the
  regular expression every piece is a run of one or two digits, so \<open>Number(part)\<close> is its
  decimal value and is finite; a missing third piece is \<open>undefined\<close> and contributes 0.
\<close>

fun parseTimeToMinutes :: "jsval \<Rightarrow> rat option" where
  "parseTimeToMinutes (JNum (Fin r)) = Some r"
| "parseTimeToMinutes (JDate (Some ms)) = Some (of_int (getHours ms * 60 + getMinutes ms))"
| "parseTimeToMinutes (JStr s) =
     (let trimmed = trim s in
      if \<not> TIME_REGEX_test trimmed then None
      else (case map digits_value (split_on CHR '':'' trimmed) of
              [hours, minutes] \<Rightarrow> Some (of_nat hours * 60 + of_nat minutes)
            | [hours, minutes, seconds] \<Rightarrow>
                Some (of_nat hours * 60 + of_nat minutes + of_nat seconds / 60)
            | _ \<Rightarrow> None))"
| "parseTimeToMinutes (JObj kvs) =
     (case map_of kvs ''minutes'' of
        Some (JNum (Fin r)) \<Rightarrow> Some r
      | _ \<Rightarrow> None)"
| "parseTimeToMinutes _ = None"

text \<open>The remainder operator \<open>%\<close>: the result takes the sign of the dividend.\<close>

definition js_trunc :: "rat \<Rightarrow> int" where
  "js_trunc x = (if 0 \<le> x then \<lfloor>x\<rfloor> else \<lceil>x\<rceil>)"

definition js_rem :: "rat \<Rightarrow> rat \<Rightarrow> rat" where
  "js_rem x y = x - y * of_int (js_trunc (x / y))"

text \<open>\<open>Math.round\<close> rounds halves upwards.\<close>

definition Math_round :: "rat \<Rightarrow> int" where
  "Math_round x = \<lfloor>x + 1 / 2\<rfloor>"

definition formatMinutes :: "rat \<Rightarrow> string" where
  "formatMinutes minutes =
     (let normalized = js_rem (js_rem minutes (24 * 60) + 24 * 60) (24 * 60);
          hours = \<lfloor>normalized / 60\<rfloor>;
          mins = Math_round (js_rem normalized 60)
      in padStart2 (toString_int hours) @ '':'' @ padStart2 (toString_int mins))"

definition normalizeTime :: "jsval \<Rightarrow> string option" where
  "normalizeTime v =
     (case parseTimeToMinutes v of
        None \<Rightarrow> None
      | Some minutes \<Rightarrow> Some (formatMinutes minutes))"

definition durationMinutes :: "jsval \<Rightarrow> jsval \<Rightarrow> rat option" where
  "durationMinutes start end' =
     (case (parseTimeToMinutes start, parseTimeToMinutes end') of
        (Some startMinutes, Some endMinutes) \<Rightarrow>
          (let diff = endMinutes - startMinutes in
           Some (if diff < 0 then diff + 24 * 60 else diff))
      | _ \<Rightarrow> None)"

section \<open>The runtime the engine relies on\<close>

text \<open>
  The schema library builds a validator from combinators; the model keeps the combinators
  that \<open>buildFieldSchema\<close> uses as a datatype and leaves their interpretation to the host.
\<close>

datatype zschema =
    ZCoerceNumber string
  | ZBoolean string
  | ZString
  | ZArrayOfString
  | ZMin zschema jsnum
  | ZMax zschema jsnum
  | ZRegexTime zschema string
  | ZRegexPattern zschema string
  | ZRefineDateParses zschema string
  | ZRefineIncluded zschema "jsval list" string
  | ZRefineAllIncluded zschema "jsval list" string

datatype zresult = ZSuccess | ZFailure "string list"

text \<open>
  Library and engine behaviour that is not part of the repository is a parameter:
  \<^item> \<open>Number_str\<close>: \<open>Number(s)\<close> on a string; \<open>Number_obj\<close>: \<open>Number(v)\<close> on an object;
  \<^item> \<open>Date_parse\<close>: \<open>Date.parse(s)\<close> in epoch milliseconds, \<open>None\<close> for \<open>NaN\<close>;
  \<^item> \<open>JSON_parse\<close>: \<open>JSON.parse(s)\<close>, \<open>None\<close> when it throws;
  \<^item> \<open>js_String\<close>: \<open>String(v)\<close>;
  \<^item> \<open>proto\<close>: what a property name reaches on the prototype chain of a plain object, an
    array, a date or a built-in (name and callability of what is found), as the \<open>in\<close>
    operator and a property read see it;
  \<^item> \<open>same_ref\<close>: whether two object values are one and the same object (\<open>===\<close> on objects);
  \<^item> \<open>zod_safeParse\<close>: the outcome of \<open>schema.safeParse(value)\<close> with the messages of its
    issues; \<open>RegExp_valid\<close>: whether \<open>new RegExp(pattern)\<close> returns.

  The engine reads its own keywords (\<open>var\<close>, \<open>value\<close>, \<open>func\<close>, \<open>op\<close>, \<open>args\<close>, \<open>all\<close>,
  \<open>any\<close>, \<open>not\<close>, \<open>left\<close>, \<open>right\<close>, \<open>min\<close>, \<open>max\<close>, \<open>minutes\<close>, \<dots>) as own properties:
  no built-in prototype defines one of them.  Names that come from the data (path segments,
  field keys, compute keys) go through \<open>proto\<close>.
\<close>

datatype proto_kind = OfObject | OfArray | OfDate | OfBuiltin string

record host =
  Number_str :: "string \<Rightarrow> jsnum"
  Number_obj :: "jsval \<Rightarrow> jsnum"
  js_String :: "jsval \<Rightarrow> string"
  Date_parse :: "string \<Rightarrow> int option"
  JSON_parse :: "string \<Rightarrow> jsval option"
  proto :: "proto_kind \<Rightarrow> string \<Rightarrow> (string \<times> bool) option"
  same_ref :: "jsval \<Rightarrow> jsval \<Rightarrow> bool"
  zod_safeParse :: "zschema \<Rightarrow> jsval \<Rightarrow> zresult"
  RegExp_valid :: "string \<Rightarrow> bool"

subsection \<open>Conversions and operators\<close>

fun truthy :: "jsval \<Rightarrow> bool" where
  "truthy JUndefined = False"
| "truthy JNull = False"
| "truthy (JBool b) = b"
| "truthy (JNum (Fin r)) = (r \<noteq> 0)"
| "truthy (JNum NaN) = False"
| "truthy (JNum _) = True"
| "truthy (JStr s) = (s \<noteq> [])"
| "truthy _ = True"

text \<open>\<open>typeof v === 'object'\<close>\<close>

fun typeof_object :: "jsval \<Rightarrow> bool" where
  "typeof_object JNull = True"
| "typeof_object (JDate d) = True"
| "typeof_object (JArr xs) = True"
| "typeof_object (JObj kvs) = True"
| "typeof_object (JBuiltin n callable) = (\<not> callable)"
| "typeof_object _ = False"

text \<open>\<open>Number(v)\<close>\<close>

fun js_Number :: "host \<Rightarrow> jsval \<Rightarrow> jsnum" where
  "js_Number h JUndefined = NaN"
| "js_Number h JNull = Fin 0"
| "js_Number h (JBool b) = Fin (if b then 1 else 0)"
| "js_Number h (JNum n) = n"
| "js_Number h (JStr s) = Number_str h s"
| "js_Number h (JDate d) = (case d of Some ms \<Rightarrow> Fin (of_int ms) | None \<Rightarrow> NaN)"
| "js_Number h v = Number_obj h v"

fun js_neg :: "jsnum \<Rightarrow> jsnum" where
  "js_neg (Fin a) = Fin (- a)"
| "js_neg PInf = NInf"
| "js_neg NInf = PInf"
| "js_neg NaN = NaN"

fun js_add :: "jsnum \<Rightarrow> jsnum \<Rightarrow> jsnum" where
  "js_add (Fin a) (Fin b) = Fin (a + b)"
| "js_add NaN _ = NaN"
| "js_add _ NaN = NaN"
| "js_add PInf NInf = NaN"
| "js_add NInf PInf = NaN"
| "js_add PInf _ = PInf"
| "js_add NInf _ = NInf"
| "js_add _ PInf = PInf"
| "js_add _ NInf = NInf"

definition js_sub :: "jsnum \<Rightarrow> jsnum \<Rightarrow> jsnum" where
  "js_sub a b = js_add a (js_neg b)"

text \<open>An infinity of the sign of \<open>s\<close>; \<open>NaN\<close> when \<open>s\<close> is zero.\<close>

definition signed_inf :: "rat \<Rightarrow> jsnum" where
  "signed_inf s = (if s = 0 then NaN else if 0 < s then PInf else NInf)"

fun js_mul :: "jsnum \<Rightarrow> jsnum \<Rightarrow> jsnum" where
  "js_mul (Fin a) (Fin b) = Fin (a * b)"
| "js_mul NaN _ = NaN"
| "js_mul _ NaN = NaN"
| "js_mul PInf (Fin b) = signed_inf b"
| "js_mul NInf (Fin b) = signed_inf (- b)"
| "js_mul (Fin a) PInf = signed_inf a"
| "js_mul (Fin a) NInf = signed_inf (- a)"
| "js_mul PInf PInf = PInf"
| "js_mul NInf NInf = PInf"
| "js_mul PInf NInf = NInf"
| "js_mul NInf PInf = NInf"

text \<open>Division; a zero divisor counts as positive zero.\<close>

fun js_div :: "jsnum \<Rightarrow> jsnum \<Rightarrow> jsnum" where
  "js_div (Fin a) (Fin b) = (if b = 0 then signed_inf a else Fin (a / b))"
| "js_div NaN _ = NaN"
| "js_div _ NaN = NaN"
| "js_div (Fin a) _ = Fin 0"
| "js_div PInf (Fin b) = (if 0 \<le> b then PInf else NInf)"
| "js_div NInf (Fin b) = (if 0 \<le> b then NInf else PInf)"
| "js_div _ _ = NaN"

section \<open>Arithmetic of the compute engine\<close>

text \<open>
  \<open>applyArithmetic\<close>; \<open>None\<close> is \<open>null\<close>.  The operator arrives as a value: everything that
  is not \<open>add\<close>, \<open>subtract\<close> or \<open>multiply\<close> takes the last branch, the division.
\<close>

definition arith_number :: "host \<Rightarrow> jsval \<Rightarrow> jsnum" where
  "arith_number h v = (case v of JNum (Fin r) \<Rightarrow> Fin r | _ \<Rightarrow> js_Number h v)"

definition applyArithmetic :: "host \<Rightarrow> jsval \<Rightarrow> jsval list \<Rightarrow> jsnum option" where
  "applyArithmetic h op vs =
     (let numericValues = map (arith_number h) vs in
      if list_ex (\<lambda>n. \<not> isFinite n) numericValues then None
      else if op = JStr ''add'' then Some (foldl js_add (Fin 0) numericValues)
      else if op = JStr ''subtract'' then
        Some (foldl js_sub (case numericValues of [] \<Rightarrow> Fin 0 | a # _ \<Rightarrow> a) (drop 1 numericValues))
      else if op = JStr ''multiply'' then Some (foldl js_mul (Fin 1) numericValues)
      else (case numericValues of
              [] \<Rightarrow> None
            | a # _ \<Rightarrow> Some (foldl js_div a (drop 1 numericValues))))"

section \<open>Property access and the path resolver\<close>

text \<open>The values on which the \<open>in\<close> operator does not throw.\<close>

fun is_object :: "jsval \<Rightarrow> bool" where
  "is_object (JDate d) = True"
| "is_object (JArr xs) = True"
| "is_object (JObj kvs) = True"
| "is_object (JBuiltin n callable) = True"
| "is_object _ = False"

text \<open>An array index is the canonical decimal spelling of a position below the length.\<close>

definition array_index :: "string \<Rightarrow> nat \<Rightarrow> nat option" where
  "array_index k n =
     (if k \<noteq> [] \<and> list_all is_digit k \<and> show_nat (digits_value k) = k \<and> digits_value k < n
      then Some (digits_value k) else None)"

fun own_prop :: "jsval \<Rightarrow> string \<Rightarrow> jsval option" where
  "own_prop (JObj kvs) k = map_of kvs k"
| "own_prop (JArr xs) k =
     (if k = ''length'' then Some (JNum (Fin (of_nat (length xs))))
      else (case array_index k (length xs) of Some i \<Rightarrow> Some (xs ! i) | None \<Rightarrow> None))"
| "own_prop _ k = None"

fun kind_of :: "jsval \<Rightarrow> proto_kind option" where
  "kind_of (JObj kvs) = Some OfObject"
| "kind_of (JArr xs) = Some OfArray"
| "kind_of (JDate d) = Some OfDate"
| "kind_of (JBuiltin n callable) = Some (OfBuiltin n)"
| "kind_of _ = None"

definition inherited :: "host \<Rightarrow> jsval \<Rightarrow> string \<Rightarrow> (string \<times> bool) option" where
  "inherited h v k = (case kind_of v of Some kd \<Rightarrow> proto h kd k | None \<Rightarrow> None)"

text \<open>\<open>k in v\<close> and \<open>v[k]\<close> for an object \<open>v\<close>.\<close>

definition has_prop :: "host \<Rightarrow> jsval \<Rightarrow> string \<Rightarrow> bool" where
  "has_prop h v k = (own_prop v k \<noteq> None \<or> inherited h v k \<noteq> None)"

definition get_prop :: "host \<Rightarrow> jsval \<Rightarrow> string \<Rightarrow> jsval" where
  "get_prop h v k =
     (case own_prop v k of
        Some x \<Rightarrow> x
      | None \<Rightarrow> (case inherited h v k of Some (n, callable) \<Rightarrow> JBuiltin n callable | None \<Rightarrow> JUndefined))"

text \<open>The engine's keywords, read as own properties of an object literal.\<close>

definition kw_in :: "jsval \<Rightarrow> string \<Rightarrow> bool" where
  "kw_in v k = (case v of JObj kvs \<Rightarrow> map_of kvs k \<noteq> None | _ \<Rightarrow> False)"

definition kw_get :: "jsval \<Rightarrow> string \<Rightarrow> jsval" where
  "kw_get v k =
     (case v of
        JObj kvs \<Rightarrow> (case map_of kvs k of Some x \<Rightarrow> x | None \<Rightarrow> JUndefined)
      | _ \<Rightarrow> JUndefined)"

text \<open>\<open>a ?? b\<close>\<close>

definition nullish :: "jsval \<Rightarrow> bool" where
  "nullish v = (v = JNull \<or> v = JUndefined)"

definition coalesce :: "jsval \<Rightarrow> jsval \<Rightarrow> jsval" where
  "coalesce a b = (if nullish a then b else a)"

record EvaluationContext =
  answers :: "(string \<times> jsval) list"
  computed :: "(string \<times> jsval) list"
  metadata :: "(string \<times> jsval) list"

definition resolvePath_step :: "host \<Rightarrow> jsval \<Rightarrow> string \<Rightarrow> jsval" where
  "resolvePath_step h current segment =
     (if truthy current \<and> typeof_object current \<and> has_prop h current segment
      then get_prop h current segment else JUndefined)"

definition resolvePath :: "host \<Rightarrow> jsval \<Rightarrow> string list \<Rightarrow> jsval" where
  "resolvePath h target path = foldl (resolvePath_step h) target path"

definition resolveVariable :: "host \<Rightarrow> string \<Rightarrow> EvaluationContext \<Rightarrow> jsval" where
  "resolveVariable h variable ctx =
     (case split_on CHR ''.'' variable of
        [] \<Rightarrow> JUndefined
      | scope # pathParts \<Rightarrow>
          if scope = ''answers'' then
            (if pathParts \<noteq> [] then resolvePath h (JObj (answers ctx)) pathParts
             else JObj (answers ctx))
          else if scope = ''computed'' then
            (if pathParts \<noteq> [] then resolvePath h (JObj (computed ctx)) pathParts
             else JObj (computed ctx))
          else if scope = ''metadata'' then
            (if pathParts \<noteq> [] then resolvePath h (JObj (metadata ctx)) pathParts
             else JObj (metadata ctx))
          else JUndefined)"

section \<open>The expression evaluator\<close>

text \<open>
  Expressions are parsed JSON that nothing has validated, so the evaluator can meet any value;
  a read or a call that the runtime rejects is the error \<open>TypeError\<close>.
\<close>

datatype js_error = TypeError | RangeError | CircularDependency string

definition resolveOperand :: "host \<Rightarrow> jsval \<Rightarrow> EvaluationContext \<Rightarrow> js_error + jsval" where
  "resolveOperand h operand ctx =
     (if operand = JUndefined then Inr JUndefined
      else if typeof_object operand \<and> operand \<noteq> JNull then
        (if kw_in operand ''var'' then
           (case kw_get operand ''var'' of
              JStr variable \<Rightarrow> Inr (resolveVariable h variable ctx)
            | _ \<Rightarrow> Inl TypeError)
         else if kw_in operand ''value'' then Inr (kw_get operand ''value'')
         else Inr operand)
      else Inr operand)"

datatype comparable = CNum rat | CStr string

fun toComparable :: "host \<Rightarrow> jsval \<Rightarrow> comparable option" where
  "toComparable h (JNum (Fin r)) = Some (CNum r)"
| "toComparable h (JStr s) =
     (let trimmed = trim s in
      if length trimmed = 0 then None
      else (case Number_str h trimmed of
              Fin numeric \<Rightarrow> Some (CNum numeric)
            | _ \<Rightarrow> (case Date_parse h trimmed of
                      Some dateValue \<Rightarrow> Some (CNum (of_int dateValue))
                    | None \<Rightarrow> Some (CStr trimmed))))"
| "toComparable h (JDate (Some ms)) = Some (CNum (of_int ms))"
| "toComparable h _ = None"

text \<open>
  The coercion as the specification words it: a finite number is itself; a string is its
  numeric parse if that is finite, else its date parse if there is one, else the trimmed
  string; a date is its time value; anything else is \<open>null\<close>.
\<close>

definition spec_toComparable :: "host \<Rightarrow> jsval \<Rightarrow> comparable option" where
  "spec_toComparable h v =
     (case v of
        JNum (Fin r) \<Rightarrow> Some (CNum r)
      | JStr s \<Rightarrow>
          (case Number_str h (trim s) of
             Fin numeric \<Rightarrow> Some (CNum numeric)
           | _ \<Rightarrow> (case Date_parse h (trim s) of
                     Some dateValue \<Rightarrow> Some (CNum (of_int dateValue))
                   | None \<Rightarrow> Some (CStr (trim s))))
      | JDate (Some ms) \<Rightarrow> Some (CNum (of_int ms))
      | _ \<Rightarrow> None)"

fun hasValue :: "jsval \<Rightarrow> bool" where
  "hasValue JNull = False"
| "hasValue JUndefined = False"
| "hasValue (JStr s) = (length (trim s) > 0)"
| "hasValue (JArr xs) = (length xs > 0)"
| "hasValue _ = True"

text \<open>\<open>a === b\<close>\<close>

fun strict_eq :: "host \<Rightarrow> jsval \<Rightarrow> jsval \<Rightarrow> bool" where
  "strict_eq h JUndefined JUndefined = True"
| "strict_eq h JNull JNull = True"
| "strict_eq h (JBool a) (JBool b) = (a = b)"
| "strict_eq h (JNum a) (JNum b) = (a \<noteq> NaN \<and> a = b)"
| "strict_eq h (JStr a) (JStr b) = (a = b)"
| "strict_eq h a b = (is_object a \<and> is_object b \<and> same_ref h a b)"

text \<open>
  The relational operators: \<open>js_less\<close> is the comparison \<open>a < b\<close> of the language, with
  \<open>None\<close> for the undefined outcome that a \<open>NaN\<close> produces.  Two strings compare by their
  code units; a number and a string compare as numbers.
\<close>

fun str_less :: "string \<Rightarrow> string \<Rightarrow> bool" where
  "str_less [] [] = False"
| "str_less [] (y # ys) = True"
| "str_less (x # xs) [] = False"
| "str_less (x # xs) (y # ys) =
     ((of_char x :: nat) < of_char y \<or> (x = y \<and> str_less xs ys))"

fun num_less :: "jsnum \<Rightarrow> jsnum \<Rightarrow> bool option" where
  "num_less NaN _ = None"
| "num_less _ NaN = None"
| "num_less (Fin a) (Fin b) = Some (a < b)"
| "num_less NInf NInf = Some False"
| "num_less NInf _ = Some True"
| "num_less _ PInf = Some False"
| "num_less PInf _ = Some False"
| "num_less _ NInf = Some False"

fun js_less :: "host \<Rightarrow> comparable \<Rightarrow> comparable \<Rightarrow> bool option" where
  "js_less h (CStr a) (CStr b) = Some (str_less a b)"
| "js_less h (CNum a) (CNum b) = num_less (Fin a) (Fin b)"
| "js_less h (CNum a) (CStr b) = num_less (Fin a) (Number_str h b)"
| "js_less h (CStr a) (CNum b) = num_less (Number_str h a) (Fin b)"

definition js_lt :: "host \<Rightarrow> comparable \<Rightarrow> comparable \<Rightarrow> bool" where
  "js_lt h a b = (js_less h a b = Some True)"

definition js_gt :: "host \<Rightarrow> comparable \<Rightarrow> comparable \<Rightarrow> bool" where
  "js_gt h a b = (js_less h b a = Some True)"

definition js_le :: "host \<Rightarrow> comparable \<Rightarrow> comparable \<Rightarrow> bool" where
  "js_le h a b = (js_less h b a = Some False)"

definition js_ge :: "host \<Rightarrow> comparable \<Rightarrow> comparable \<Rightarrow> bool" where
  "js_ge h a b = (js_less h a b = Some False)"

text \<open>The branch of the four ordering operators.\<close>

definition compareOperands :: "host \<Rightarrow> jsval \<Rightarrow> jsval \<Rightarrow> jsval \<Rightarrow> bool" where
  "compareOperands h op leftValue rightValue =
     (case (toComparable h leftValue, toComparable h rightValue) of
        (Some leftComparable, Some rightComparable) \<Rightarrow>
          if op = JStr ''>'' then js_gt h leftComparable rightComparable
          else if op = JStr ''>='' then js_ge h leftComparable rightComparable
          else if op = JStr ''<'' then js_lt h leftComparable rightComparable
          else js_le h leftComparable rightComparable
      | _ \<Rightarrow> False)"

definition betweenOperands :: "host \<Rightarrow> jsval \<Rightarrow> jsval \<Rightarrow> jsval \<Rightarrow> bool" where
  "betweenOperands h leftValue minValue maxValue =
     (case (toComparable h leftValue, toComparable h minValue, toComparable h maxValue) of
        (Some c, Some minComparable, Some maxComparable) \<Rightarrow>
          js_ge h c minComparable \<and> js_le h c maxComparable
      | _ \<Rightarrow> False)"

text \<open>The operator part of \<open>evaluateExpression\<close>, reached when no logical group is present.\<close>

definition evaluateLeaf :: "host \<Rightarrow> jsval \<Rightarrow> EvaluationContext \<Rightarrow> js_error + bool" where
  "evaluateLeaf h expression ctx =
     (case resolveOperand h (coalesce (kw_get expression ''left'') (kw_get expression ''value'')) ctx of
        Inl e \<Rightarrow> Inl e
      | Inr leftValue \<Rightarrow>
     (case resolveOperand h (kw_get expression ''right'') ctx of
        Inl e \<Rightarrow> Inl e
      | Inr rightValue \<Rightarrow>
     (let op = kw_get expression ''op'' in
      if op = JStr ''exists'' then Inr (hasValue leftValue)
      else if op = JStr ''=='' then Inr (strict_eq h leftValue rightValue)
      else if op = JStr ''!='' then Inr (\<not> strict_eq h leftValue rightValue)
      else if op = JStr ''>'' \<or> op = JStr ''>='' \<or> op = JStr ''<'' \<or> op = JStr ''<='' then
        Inr (compareOperands h op leftValue rightValue)
      else if op = JStr ''in'' \<or> op = JStr ''not_in'' then
        (let list = (case rightValue of JArr xs \<Rightarrow> xs | _ \<Rightarrow> []);
             found = list_ex (\<lambda>item. strict_eq h item leftValue) list
         in Inr (if op = JStr ''in'' then found else \<not> found))
      else if op = JStr ''between'' then
        (case resolveOperand h (kw_get expression ''min'') ctx of
           Inl e \<Rightarrow> Inl e
         | Inr minValue \<Rightarrow>
        (case resolveOperand h (kw_get expression ''max'') ctx of
           Inl e \<Rightarrow> Inl e
         | Inr maxValue \<Rightarrow> Inr (betweenOperands h leftValue minValue maxValue)))
      else Inr False)))"

function evaluateExpression :: "host \<Rightarrow> jsval \<Rightarrow> EvaluationContext \<Rightarrow> js_error + bool"
  and every_expression :: "host \<Rightarrow> jsval list \<Rightarrow> EvaluationContext \<Rightarrow> js_error + bool"
  and some_expression :: "host \<Rightarrow> jsval list \<Rightarrow> EvaluationContext \<Rightarrow> js_error + bool"
where
  "evaluateExpression h expression ctx =
     (if \<not> is_object expression then Inl TypeError
      else if kw_in expression ''all'' then
        (case kw_get expression ''all'' of
           JArr children \<Rightarrow> every_expression h children ctx
         | _ \<Rightarrow> Inl TypeError)
      else if kw_in expression ''any'' then
        (case kw_get expression ''any'' of
           JArr children \<Rightarrow> some_expression h children ctx
         | _ \<Rightarrow> Inl TypeError)
      else if kw_in expression ''not'' then
        (case evaluateExpression h (kw_get expression ''not'') ctx of
           Inl e \<Rightarrow> Inl e
         | Inr b \<Rightarrow> Inr (\<not> b))
      else evaluateLeaf h expression ctx)"
| "every_expression h [] ctx = Inr True"
| "every_expression h (child # children) ctx =
     (case evaluateExpression h child ctx of
        Inl e \<Rightarrow> Inl e
      | Inr b \<Rightarrow> if b then every_expression h children ctx else Inr False)"
| "some_expression h [] ctx = Inr False"
| "some_expression h (child # children) ctx =
     (case evaluateExpression h child ctx of
        Inl e \<Rightarrow> Inl e
      | Inr b \<Rightarrow> if b then Inr True else some_expression h children ctx)"
  by pat_completeness auto
termination
proof -
  have map_of_less: "size v < Suc (size_list (size_prod (\<lambda>_. 0) size) kvs)"
    if "map_of kvs k = Some v" for kvs :: "(string \<times> jsval) list" and k v
    using that by (induction kvs) (auto split: if_splits)
  have kw_less: "size (kw_get e k) < size e" if "kw_in e k" for e k
    using that by (cases e) (auto simp: kw_in_def kw_get_def dest: map_of_less)
  have kw_array_less: "size_list size xs < size e" if "kw_in e k" "kw_get e k = JArr xs" for e k xs
    using kw_less [OF that(1)] that(2) by simp
  show ?thesis
    by (relation "measure (\<lambda>x. case x of
          Inl (h, e, ctx) \<Rightarrow> size e
        | Inr (Inl (h, xs, ctx)) \<Rightarrow> size_list size xs
        | Inr (Inr (h, xs, ctx)) \<Rightarrow> size_list size xs)")
      (auto dest: kw_array_less kw_less)
qed

declare evaluateExpression.simps [simp del]

section \<open>The compute engine\<close>

type_synonym jsobject = "(string \<times> jsval) list"

record ComputeDefinition =
  def_key :: string
  def_type :: string
  def_definition :: jsval

definition midpointTime :: "jsval \<Rightarrow> jsval \<Rightarrow> string option" where
  "midpointTime start end' =
     (case (parseTimeToMinutes start, parseTimeToMinutes end') of
        (Some startMinutes, Some endMinutes) \<Rightarrow>
          (let diff = endMinutes - startMinutes;
               normalizedDiff = (if diff < 0 then diff + 24 * 60 else diff);
               midpoint = js_rem (startMinutes + normalizedDiff / 2) (24 * 60)
           in Some (formatMinutes midpoint))
      | _ \<Rightarrow> None)"

text \<open>
  Calendar arithmetic for \<open>add_days\<close>.  A time value is cut to its UTC day, the truncated
  number of days is added, and the day is printed as the first ten characters of the ISO
  string.  \<open>toISOString\<close> throws a \<open>RangeError\<close> on a date outside the range of time
  values (one hundred million days either side of the epoch).
\<close>

definition civil_from_days :: "int \<Rightarrow> int \<times> int \<times> int" where
  "civil_from_days days =
     (let z = days + 719468;
          era = z div 146097;
          doe = z - era * 146097;
          yoe = (doe - doe div 1460 + doe div 36524 - doe div 146096) div 365;
          doy = doe - (365 * yoe + yoe div 4 - yoe div 100);
          mp = (5 * doy + 2) div 153;
          d = doy - (153 * mp + 2) div 5 + 1;
          m = (if mp < 10 then mp + 3 else mp - 9);
          y = yoe + era * 400 + (if m \<le> 2 then 1 else 0)
      in (y, m, d))"

definition pad_left :: "nat \<Rightarrow> string \<Rightarrow> string" where
  "pad_left n s = replicate (n - length s) CHR ''0'' @ s"

definition iso_date_prefix :: "int \<Rightarrow> string" where
  "iso_date_prefix days =
     (case civil_from_days days of (y, m, d) \<Rightarrow>
        take 10
          ((if 0 \<le> y \<and> y \<le> 9999 then pad_left 4 (show_nat (nat y))
            else (if y < 0 then ''-'' else ''+'') @ pad_left 6 (show_nat (nat \<bar>y\<bar>)))
           @ ''-'' @ pad_left 2 (show_nat (nat m)) @ ''-'' @ pad_left 2 (show_nat (nat d))))"

definition addDaysToDate :: "host \<Rightarrow> jsval \<Rightarrow> jsval \<Rightarrow> js_error + string option" where
  "addDaysToDate h dateValue daysValue =
     (case daysValue of
        JNum (Fin days) \<Rightarrow>
          (case dateValue of
             JStr s \<Rightarrow>
               (case Date_parse h s of
                  None \<Rightarrow> Inr None
                | Some parsed \<Rightarrow>
                    (let result = parsed div 86400000 + js_trunc days in
                     if \<bar>result\<bar> \<le> 100000000 then Inr (Some (iso_date_prefix result))
                     else Inl RangeError))
           | _ \<Rightarrow> Inr None)
      | _ \<Rightarrow> Inr None)"

definition of_string_option :: "string option \<Rightarrow> jsval" where
  "of_string_option r = (case r of Some s \<Rightarrow> JStr s | None \<Rightarrow> JNull)"

definition of_number_option :: "jsnum option \<Rightarrow> jsval" where
  "of_number_option r = (case r of Some n \<Rightarrow> JNum n | None \<Rightarrow> JNull)"

text \<open>\<open>args[i]\<close>\<close>

definition arg :: "jsval list \<Rightarrow> nat \<Rightarrow> jsval" where
  "arg args i = (if i < length args then args ! i else JUndefined)"

definition starts_with :: "string \<Rightarrow> string \<Rightarrow> bool" where
  "starts_with p s = (take (length p) s = p)"

text \<open>\<open>definitionMap.get(key)\<close>: of two definitions with one key the later one is kept.\<close>

definition definitionMap_get :: "ComputeDefinition list \<Rightarrow> string \<Rightarrow> ComputeDefinition option" where
  "definitionMap_get definitions k = map_of (rev (map (\<lambda>d. (def_key d, d)) definitions)) k"

text \<open>
  \<open>evaluateComputeExpression\<close> and the closure \<open>resolveComputed\<close> of \<open>computeDefinitions\<close>.
  The object \<open>computedValues\<close> is the state: every function takes it and returns it, and the
  context that the source passes on (\<open>{...context, computed: computedValues}\<close>) reads it
  at the time of each lookup, as the shared object does.  The set \<open>visiting\<close> is an argument:
  a call that returns has removed the key it added, so the set after a call is the set
  before it, and a call that throws ends the whole computation.

  The function-call branch has no default: an unknown function name falls through to the
  test for \<open>op\<close>, which is the separate function \<open>evaluate_op\<close> here.
\<close>

function evaluateComputeExpression ::
    "host \<Rightarrow> ComputeDefinition list \<Rightarrow> EvaluationContext \<Rightarrow> string list \<Rightarrow> jsval \<Rightarrow> jsobject
      \<Rightarrow> js_error + (jsval \<times> jsobject)"
  and evaluate_op ::
    "host \<Rightarrow> ComputeDefinition list \<Rightarrow> EvaluationContext \<Rightarrow> string list \<Rightarrow> jsval \<Rightarrow> jsobject
      \<Rightarrow> js_error + (jsval \<times> jsobject)"
  and evaluate_args ::
    "host \<Rightarrow> ComputeDefinition list \<Rightarrow> EvaluationContext \<Rightarrow> string list \<Rightarrow> jsval list \<Rightarrow> jsobject
      \<Rightarrow> js_error + (jsval list \<times> jsobject)"
  and resolveComputed ::
    "host \<Rightarrow> ComputeDefinition list \<Rightarrow> EvaluationContext \<Rightarrow> string list \<Rightarrow> string \<Rightarrow> jsobject
      \<Rightarrow> js_error + (jsval \<times> jsobject)"
where
  "evaluateComputeExpression h defs ctx visiting expression cv =
     (if expression = JNull \<or> \<not> typeof_object expression then Inr (expression, cv)
      else if kw_in expression ''var'' then
        (case kw_get expression ''var'' of
           JStr variable \<Rightarrow>
             (let v = resolveVariable h variable (ctx\<lparr>computed := cv\<rparr>) in
              if starts_with ''computed.'' variable \<and> v = JUndefined
              then resolveComputed h defs ctx visiting (drop (length ''computed.'') variable) cv
              else Inr (v, cv))
         | _ \<Rightarrow> Inl TypeError)
      else if kw_in expression ''value'' then Inr (kw_get expression ''value'', cv)
      else if kw_in expression ''func'' then
        (case kw_get expression ''args'' of
           JArr xs \<Rightarrow>
             (case evaluate_args h defs ctx visiting xs cv of
                Inl e \<Rightarrow> Inl e
              | Inr (args, cv') \<Rightarrow>
                  (let func = kw_get expression ''func'' in
                   if func = JStr ''normalize_time'' then
                     Inr (of_string_option (normalizeTime (arg args 0)), cv')
                   else if func = JStr ''midpoint'' then
                     Inr (of_string_option (midpointTime (arg args 0) (arg args 1)), cv')
                   else if func = JStr ''duration'' then
                     Inr (of_number_option (map_option Fin (durationMinutes (arg args 0) (arg args 1))), cv')
                   else if func = JStr ''add_days'' then
                     (case addDaysToDate h (arg args 0) (arg args 1) of
                        Inl e \<Rightarrow> Inl e
                      | Inr r \<Rightarrow> Inr (of_string_option r, cv'))
                   else evaluate_op h defs ctx visiting expression cv'))
         | _ \<Rightarrow> Inl TypeError)
      else evaluate_op h defs ctx visiting expression cv)"
| "evaluate_op h defs ctx visiting expression cv =
     (if kw_in expression ''op'' then
        (case kw_get expression ''args'' of
           JArr xs \<Rightarrow>
             (case evaluate_args h defs ctx visiting xs cv of
                Inl e \<Rightarrow> Inl e
              | Inr (args, cv') \<Rightarrow>
                  Inr (of_number_option (applyArithmetic h (kw_get expression ''op'') args), cv'))
         | _ \<Rightarrow> Inl TypeError)
      else Inr (expression, cv))"
| "evaluate_args h defs ctx visiting [] cv = Inr ([], cv)"
| "evaluate_args h defs ctx visiting (x # xs) cv =
     (case evaluateComputeExpression h defs ctx visiting x cv of
        Inl e \<Rightarrow> Inl e
      | Inr (v, cv') \<Rightarrow>
          (case evaluate_args h defs ctx visiting xs cv' of
             Inl e \<Rightarrow> Inl e
           | Inr (vs, cv'') \<Rightarrow> Inr (v # vs, cv'')))"
| "resolveComputed h defs ctx visiting k cv =
     (if has_prop h (JObj cv) k then Inr (get_prop h (JObj cv) k, cv)
      else (case definitionMap_get defs k of
              None \<Rightarrow> Inr (JUndefined, cv)
            | Some d \<Rightarrow>
                if k \<in> set visiting then Inl (CircularDependency k)
                else (case evaluateComputeExpression h defs ctx (k # visiting) (def_definition d) cv of
                        Inl e \<Rightarrow> Inl e
                      | Inr (v, cv') \<Rightarrow> Inr (v, AList.update k v cv'))))"
  by pat_completeness auto
termination
proof -
  have map_of_less: "size v < Suc (size_list (size_prod (\<lambda>_. 0) size) kvs)"
    if "map_of kvs k = Some v" for kvs :: "(string \<times> jsval) list" and k v
    using that by (induction kvs) (auto split: if_splits)
  have kw_less: "size (kw_get e k) < size e" if "kw_in e k" for e k
    using that by (cases e) (auto simp: kw_in_def kw_get_def dest: map_of_less)
  have args_less: "size_list size xs < size e" if "kw_get e k = JArr xs" for e k xs
  proof -
    from that have "kw_in e k"
      by (auto simp: kw_in_def kw_get_def split: jsval.splits option.splits)
    from kw_less [OF this] that show ?thesis by simp
  qed
  have visit_less: "card (set (map def_key defs) - insert k (set visiting))
      < card (set (map def_key defs) - set visiting)"
    if "definitionMap_get defs k = Some d" "k \<notin> set visiting" for defs k d visiting
  proof -
    from that(1) have "(k, d) \<in> set (rev (map (\<lambda>d. (def_key d, d)) defs))"
      unfolding definitionMap_get_def by (rule map_of_SomeD)
    then have "k \<in> set (map def_key defs)" by auto
    with that(2) have mem: "k \<in> set (map def_key defs) - set visiting" by simp
    have eq: "set (map def_key defs) - insert k (set visiting)
        = (set (map def_key defs) - set visiting) - {k}" by auto
    have fin: "finite (set (map def_key defs) - set visiting)" by simp
    show ?thesis unfolding eq by (rule card_Diff1_less [OF fin mem])
  qed
  show ?thesis
    by (relation "inv_image (less_than <*lex*> less_than) (\<lambda>x. case x of
          Inl (Inl (h, defs, ctx, visiting, e, cv)) \<Rightarrow>
            (card (set (map def_key defs) - set visiting), 2 * size e + 2)
        | Inl (Inr (h, defs, ctx, visiting, e, cv)) \<Rightarrow>
            (card (set (map def_key defs) - set visiting), 2 * size e + 1)
        | Inr (Inl (h, defs, ctx, visiting, xs, cv)) \<Rightarrow>
            (card (set (map def_key defs) - set visiting), 2 * size_list size xs + 1)
        | Inr (Inr (h, defs, ctx, visiting, k, cv)) \<Rightarrow>
            (card (set (map def_key defs) - set visiting), 0))")
      (auto dest: args_less visit_less)
qed

declare evaluateComputeExpression.simps [simp del]
declare evaluate_op.simps [simp del]
declare resolveComputed.simps [simp del]

text \<open>\<open>definitions.forEach((definition) => resolveComputed(definition.key))\<close>\<close>

fun resolve_each ::
    "host \<Rightarrow> ComputeDefinition list \<Rightarrow> EvaluationContext \<Rightarrow> ComputeDefinition list \<Rightarrow> jsobject
      \<Rightarrow> js_error + jsobject" where
  "resolve_each h defs ctx [] cv = Inr cv"
| "resolve_each h defs ctx (d # ds) cv =
     (case resolveComputed h defs ctx [] (def_key d) cv of
        Inl e \<Rightarrow> Inl e
      | Inr (v, cv') \<Rightarrow> resolve_each h defs ctx ds cv')"

definition computeDefinitions ::
    "host \<Rightarrow> ComputeDefinition list \<Rightarrow> EvaluationContext \<Rightarrow> js_error + jsobject" where
  "computeDefinitions h definitions ctx = resolve_each h definitions ctx definitions (computed ctx)"

subsection \<open>Dependencies between compute definitions\<close>

text \<open>
  The computed keys that an expression refers to: the keys \<open>k\<close> of the variables
  \<open>computed.k\<close> in the positions that \<open>evaluateComputeExpression\<close> evaluates (the variable
  itself, and the arguments of a function call or an arithmetic operator).
\<close>

function compute_refs :: "jsval \<Rightarrow> string set" where
  "compute_refs e =
     (if e = JNull \<or> \<not> typeof_object e then {}
      else if kw_in e ''var'' then
        (case kw_get e ''var'' of
           JStr variable \<Rightarrow>
             if starts_with ''computed.'' variable then {drop (length ''computed.'') variable} else {}
         | _ \<Rightarrow> {})
      else if kw_in e ''value'' then {}
      else if kw_in e ''func'' \<or> kw_in e ''op'' then
        (case kw_get e ''args'' of
           JArr xs \<Rightarrow> (\<Union>x \<in> set xs. compute_refs x)
         | _ \<Rightarrow> {})
      else {})"
  by pat_completeness auto
termination
proof -
  have map_of_less: "size v < Suc (size_list (size_prod (\<lambda>_. 0) size) kvs)"
    if "map_of kvs k = Some v" for kvs :: "(string \<times> jsval) list" and k v
    using that by (induction kvs) (auto split: if_splits)
  have elem_less: "size x < size_list size xs" if "x \<in> set xs" for x :: jsval and xs
    using that by (induction xs) auto
  have arg_less: "size x < size e" if "kw_get e k = JArr xs" "x \<in> set xs" for e k xs x
  proof -
    from that(1) obtain kvs where e: "e = JObj kvs" and m: "map_of kvs k = Some (JArr xs)"
      by (auto simp: kw_get_def split: jsval.splits option.splits)
    from map_of_less [OF m] elem_less [OF that(2)] show ?thesis by (simp add: e)
  qed
  show ?thesis
    by (relation "measure size") (auto dest: arg_less)
qed

declare compute_refs.simps [simp del]

text \<open>
  Expressions on which the evaluator itself raises no error: a variable is named by a
  string, the arguments of a function call or an operator are an array of such
  expressions, and the function is not \<open>add_days\<close> (whose result can fall outside the range
  of dates).  The only error left is the cycle error of \<open>resolveComputed\<close>.
\<close>

function safe_compute :: "jsval \<Rightarrow> bool" where
  "safe_compute e =
     (if e = JNull \<or> \<not> typeof_object e then True
      else if kw_in e ''var'' then (case kw_get e ''var'' of JStr variable \<Rightarrow> True | _ \<Rightarrow> False)
      else if kw_in e ''value'' then True
      else if kw_in e ''func'' \<or> kw_in e ''op'' then
        (case kw_get e ''args'' of
           JArr xs \<Rightarrow> (\<forall>x \<in> set xs. safe_compute x) \<and> kw_get e ''func'' \<noteq> JStr ''add_days''
         | _ \<Rightarrow> False)
      else True)"
  by pat_completeness auto
termination
proof -
  have map_of_less: "size v < Suc (size_list (size_prod (\<lambda>_. 0) size) kvs)"
    if "map_of kvs k = Some v" for kvs :: "(string \<times> jsval) list" and k v
    using that by (induction kvs) (auto split: if_splits)
  have elem_less: "size x < size_list size xs" if "x \<in> set xs" for x :: jsval and xs
    using that by (induction xs) auto
  have arg_less: "size x < size e" if "kw_get e k = JArr xs" "x \<in> set xs" for e k xs x
  proof -
    from that(1) obtain kvs where e: "e = JObj kvs" and m: "map_of kvs k = Some (JArr xs)"
      by (auto simp: kw_get_def split: jsval.splits option.splits)
    from map_of_less [OF m] elem_less [OF that(2)] show ?thesis by (simp add: e)
  qed
  show ?thesis
    by (relation "measure size") (auto dest: arg_less)
qed

declare safe_compute.simps [simp del]

text \<open>
  A key depends on another when its definition (the one the definition map keeps) refers
  to the other key and the other key has a definition too.
\<close>

definition depends :: "ComputeDefinition list \<Rightarrow> (string \<times> string) set" where
  "depends definitions =
     {(k, k'). \<exists>d. definitionMap_get definitions k = Some d
                 \<and> k' \<in> compute_refs (def_definition d)
                 \<and> definitionMap_get definitions k' \<noteq> None}"

text \<open>
  A list of computed entries, newest first, is in dependency order when every key is new
  with respect to the older entries and all that it depends on is among them.
\<close>

fun dependency_ordered :: "(string \<times> string) set \<Rightarrow> (string \<times> jsval) list \<Rightarrow> bool" where
  "dependency_ordered E [] = True"
| "dependency_ordered E ((k, v) # older) =
     (k \<notin> fst ` set older \<and> (\<forall>k'. (k, k') \<in> E \<longrightarrow> k' \<in> fst ` set older)
      \<and> dependency_ordered E older)"

text \<open>The keys are plain: no dot in a key, and no key is a name that every object inherits.\<close>

definition plain_keys :: "host \<Rightarrow> ComputeDefinition list \<Rightarrow> bool" where
  "plain_keys h definitions =
     (\<forall>d \<in> set definitions. CHR ''.'' \<notin> set (def_key d) \<and> proto h OfObject (def_key d) = None)"

text \<open>The references that \<open>evaluate_op\<close> evaluates.\<close>

definition op_refs :: "jsval \<Rightarrow> string set" where
  "op_refs e =
     (if kw_in e ''op'' then
        (case kw_get e ''args'' of JArr xs \<Rightarrow> (\<Union>x \<in> set xs. compute_refs x) | _ \<Rightarrow> {})
      else {})"

text \<open>One object of computed values extends another: it keeps every entry of it.\<close>

definition extends :: "jsobject \<Rightarrow> jsobject \<Rightarrow> bool" where
  "extends cv cv' = (\<forall>k x. map_of cv k = Some x \<longrightarrow> map_of cv' k = Some x)"

text \<open>
  What a call that returns guarantees about the computed values before (\<open>cv\<close>) and after
  (\<open>cv'\<close>) it, for the references \<open>G\<close> it has evaluated: the entries are kept, the new keys
  are definition keys, and, for plain keys, dependency order is kept, no key under
  evaluation has been stored, and every referenced definition key has been stored.
\<close>

definition compute_post ::
    "host \<Rightarrow> ComputeDefinition list \<Rightarrow> string list \<Rightarrow> jsobject \<Rightarrow> jsobject \<Rightarrow> string set \<Rightarrow> bool" where
  "compute_post h definitions visiting cv cv' G =
     (extends cv cv'
      \<and> fst ` set cv' \<subseteq> fst ` set cv \<union> def_key ` set definitions
      \<and> (plain_keys h definitions \<and> dependency_ordered (depends definitions) (rev cv)
           \<and> fst ` set cv \<inter> set visiting = {} \<longrightarrow>
          dependency_ordered (depends definitions) (rev cv')
          \<and> fst ` set cv' \<inter> set visiting = {}
          \<and> G \<inter> def_key ` set definitions \<subseteq> fst ` set cv'))"

text \<open>
  What the caller of a call that throws the cycle error guarantees: every key under
  evaluation depends, directly or through others, on every definition key in \<open>G\<close>.
\<close>

definition chain_pre :: "ComputeDefinition list \<Rightarrow> string list \<Rightarrow> string set \<Rightarrow> bool" where
  "chain_pre definitions visiting G =
     (\<forall>u \<in> set visiting. \<forall>k \<in> G. definitionMap_get definitions k \<noteq> None \<longrightarrow>
        (u, k) \<in> (depends definitions)\<^sup>+)"

section \<open>The answer validator\<close>

record FormFieldDefinition =
  field_key :: string
  field_type :: string
  field_required :: jsval
  options_json :: jsval
  validation_json :: jsval

record ValidationIssue =
  issue_key :: string
  message :: string

record ValidationResult =
  valid :: bool
  errors :: "ValidationIssue list"

definition parseOptionalJson :: "host \<Rightarrow> jsval \<Rightarrow> jsval" where
  "parseOptionalJson h v =
     (if v = JNull \<or> v = JUndefined then JUndefined
      else (case v of
              JStr s \<Rightarrow> (case JSON_parse h s of Some parsed \<Rightarrow> parsed | None \<Rightarrow> JUndefined)
            | _ \<Rightarrow> v))"

definition toLowerCase :: "string \<Rightarrow> string" where
  "toLowerCase s =
     map (\<lambda>c. let n = (of_char c :: nat) in if 65 \<le> n \<and> n \<le> 90 then char_of (n + 32) else c) s"

text \<open>
  \<open>buildFieldSchema\<close>.  \<open>validation?.min\<close> and its siblings are keyword reads; a constraint
  is applied when its value is a number (a string for \<open>pattern\<close>).
\<close>

definition buildFieldSchema :: "host \<Rightarrow> FormFieldDefinition \<Rightarrow> jsval \<Rightarrow> jsval \<Rightarrow> zschema" where
  "buildFieldSchema h field options validation =
     (let type = toLowerCase (field_type field);
          schema =
            (if type = ''number'' then
               (let s0 = ZCoerceNumber ''Expected a number'';
                    s1 = (case kw_get validation ''min'' of JNum n \<Rightarrow> ZMin s0 n | _ \<Rightarrow> s0)
                in (case kw_get validation ''max'' of JNum n \<Rightarrow> ZMax s1 n | _ \<Rightarrow> s1))
             else if type = ''boolean'' then ZBoolean ''Expected a boolean''
             else if type = ''date'' then ZRefineDateParses ZString ''Invalid date format''
             else if type = ''time'' then ZRegexTime ZString ''Invalid time format''
             else if type = ''multi_select'' then ZArrayOfString
             else
               (let s0 = ZString;
                    s1 = (case kw_get validation ''minLength'' of JNum n \<Rightarrow> ZMin s0 n | _ \<Rightarrow> s0);
                    s2 = (case kw_get validation ''maxLength'' of JNum n \<Rightarrow> ZMax s1 n | _ \<Rightarrow> s1)
                in (case kw_get validation ''pattern'' of
                      JStr p \<Rightarrow> if RegExp_valid h p then ZRegexPattern s2 p else s2
                    | _ \<Rightarrow> s2)));
          schema' =
            (case options of
               JArr opts \<Rightarrow>
                 if type = ''select'' then
                   ZRefineIncluded schema opts ''Value must be one of the defined options''
                 else schema
             | _ \<Rightarrow> schema)
      in (case options of
            JArr opts \<Rightarrow>
              if type = ''multi_select'' then
                ZRefineAllIncluded schema' opts ''All selections must be valid options''
              else schema'
          | _ \<Rightarrow> schema'))"

text \<open>\<open>Boolean(field.required)\<close> is \<open>truthy\<close>; the raw value is the property read \<open>answers[field.key]\<close> (the answers are \<open>ans\<close> here).\<close>

definition absent :: "jsval \<Rightarrow> bool" where
  "absent rawValue = (rawValue = JUndefined \<or> rawValue = JNull \<or> rawValue = JStr '''')"

text \<open>The body of the loop over the fields: the issues collected so far, extended by this field.\<close>

definition validateField ::
    "host \<Rightarrow> jsobject \<Rightarrow> ValidationIssue list \<Rightarrow> FormFieldDefinition \<Rightarrow> ValidationIssue list" where
  "validateField h ans errs field =
     (let required = truthy (field_required field);
          rawValue = get_prop h (JObj ans) (field_key field)
      in if \<not> required \<and> absent rawValue then errs
         else if required \<and> absent rawValue then
           errs @ [\<lparr>issue_key = field_key field, message = ''Field is required''\<rparr>]
         else
           (let options = parseOptionalJson h (options_json field);
                validation = coalesce (parseOptionalJson h (validation_json field)) JUndefined;
                schema = buildFieldSchema h field options validation
            in (case zod_safeParse h schema rawValue of
                  ZSuccess \<Rightarrow> errs
                | ZFailure msgs \<Rightarrow>
                    errs @ [\<lparr>issue_key = field_key field,
                             message = (case msgs of m # _ \<Rightarrow> m | [] \<Rightarrow> ''Invalid value'')\<rparr>])))"

definition validateAnswers :: "host \<Rightarrow> FormFieldDefinition list \<Rightarrow> jsobject \<Rightarrow> ValidationResult" where
  "validateAnswers h flds ans =
     (let errs = foldl (validateField h ans) [] flds
      in \<lparr>valid = (length errs = 0), errors = errs\<rparr>)"

section \<open>The intake handler\<close>

subsection \<open>The store\<close>

text \<open>
  The tables the handler reads and writes, with the columns it uses.  A JSON column that the
  handler fills holds the value it passes to \<open>JSON.stringify\<close>; a JSON column it reads holds
  the stored text.  Every insert succeeds.
\<close>

record form_template_row =
  ft_id :: int
  ft_study_id :: string

record form_field_row =
  ff_form_template_id :: int
  ff_order_index :: int
  ff_field :: FormFieldDefinition

record compute_definition_row =
  cd_study_id :: string
  cd_status :: string
  cd_key :: string
  cd_type :: string
  cd_definition_json :: string

record rule_set_row =
  rs_id :: int
  rs_study_id :: string
  rs_status :: string
  rs_rule_type :: string
  rs_name :: string
  rs_expression_json :: string

record form_submission_row =
  fs_id :: int
  fs_study_id :: string
  fs_participant_id :: string
  fs_form_template_id :: int
  fs_answers_json :: jsobject
  fs_submitted_at :: string

record computed_value_row =
  cv_submission_id :: int
  cv_key :: string
  cv_value_json :: jsval
  cv_computed_at :: string

record EvaluationDetail =
  ed_rule_set_id :: int
  ed_rule_type :: string
  ed_name :: string
  ed_matched :: bool
  ed_assignment :: "(string \<times> string) option"
  ed_plan :: "jsval option"

record rule_evaluation_row =
  re_submission_id :: int
  re_rule_set_id :: int
  re_result_bool :: int
  re_result_json :: EvaluationDetail
  re_evaluated_at :: string

record Assignment =
  as_rule_set_id :: int
  as_group_key :: string
  as_group_value :: string

record participant_assignment_row =
  pa_participant_id :: string
  pa_study_id :: string
  pa_group_key :: string
  pa_group_value :: string
  pa_assigned_at :: string

record SchedulePlanEntry =
  sp_rule_set_id :: int
  sp_plan :: jsval

record schedule_plan_row =
  spr_participant_id :: string
  spr_study_id :: string
  spr_plans :: "SchedulePlanEntry list"
  spr_created_at :: string

record audit_log_row =
  al_study_id :: string
  al_participant_id :: string
  al_action :: string
  al_entity_type :: string
  al_entity_id :: string
  al_form_template_id :: int
  al_computed_keys :: "string list"
  al_rule_count :: nat
  al_created_at :: string

record db =
  form_templates :: "form_template_row list"
  form_fields :: "form_field_row list"
  compute_definitions :: "compute_definition_row list"
  rule_sets :: "rule_set_row list"
  form_submissions :: "form_submission_row list"
  computed_values :: "computed_value_row list"
  rule_evaluations :: "rule_evaluation_row list"
  participant_assignments :: "participant_assignment_row list"
  schedule_plans :: "schedule_plan_row list"
  audit_logs :: "audit_log_row list"

text \<open>\<open>meta.last_row_id\<close> of an insert into a table with the given ids.\<close>

definition next_id :: "int list \<Rightarrow> int" where
  "next_id ids = fold max ids 0 + 1"

subsection \<open>Requests and responses\<close>

text \<open>
  \<open>parseBody\<close> either throws (malformed JSON, or a body the schema rejects) or returns the
  typed body; a request is given by that outcome.
\<close>

record IntakeBody =
  form_template_id :: int
  body_answers :: jsobject
  body_metadata :: "jsobject option"

datatype request = Rejected string | Accepted IntakeBody

record SubmissionInfo =
  sub_id :: int
  sub_study_id :: string
  sub_participant_id :: string
  sub_form_template_id :: int
  sub_submitted_at :: string

record Envelope =
  env_submission :: SubmissionInfo
  env_answers :: jsobject
  env_computed :: jsobject
  env_rule_evaluations :: "EvaluationDetail list"
  env_assignments :: "Assignment list"
  env_schedule_plan :: "SchedulePlanEntry list option"

datatype response_body =
    ErrorBody string
  | ValidationErrorBody string "ValidationIssue list"
  | EnvelopeBody Envelope

datatype response = Response nat response_body

text \<open>
  \<open>(error as Error).message\<close>.  The text of the engine's own errors is fixed by the runtime;
  the text of the cycle error is built by \<open>computeDefinitions\<close>.
\<close>

fun error_message :: "js_error \<Rightarrow> string" where
  "error_message (CircularDependency k) = ''Circular compute dependency detected for '' @ k"
| "error_message TypeError = ''TypeError''"
| "error_message RangeError = ''Invalid time value''"

subsection \<open>Rules\<close>

definition parseJsonValue :: "host \<Rightarrow> string \<Rightarrow> jsval \<Rightarrow> jsval" where
  "parseJsonValue h v fallback =
     (if v = [] then fallback
      else (case JSON_parse h v of Some parsed \<Rightarrow> parsed | None \<Rightarrow> fallback))"

record ResolvedRule =
  r_expression :: jsval
  r_assignment :: "(string \<times> string) option"
  r_plan :: jsval

text \<open>
  \<open>resolveRuleExpression\<close>.  The payload is parsed JSON; every branch starts with a property
  read on it, which throws when the payload is \<open>null\<close>.  An absent part of the result is
  \<open>undefined\<close>.
\<close>

definition resolveRuleExpression :: "host \<Rightarrow> string \<Rightarrow> jsval \<Rightarrow> js_error + ResolvedRule" where
  "resolveRuleExpression h ruleType payload =
     (if nullish payload then Inl TypeError
      else if ruleType = ''eligibility'' then
        Inr \<lparr>r_expression = coalesce (kw_get payload ''expression'')
                               (coalesce (kw_get payload ''criteria'') payload),
             r_assignment = None, r_plan = JUndefined\<rparr>
      else if ruleType = ''group_assignment'' then
        (let expression = coalesce (kw_get payload ''when'')
                            (coalesce (kw_get payload ''expression'')
                               (coalesce (kw_get payload ''criteria'') payload));
             assignmentPayload = coalesce (kw_get payload ''assignment'')
                (JObj [(''key'', kw_get payload ''group_key''), (''value'', kw_get payload ''group_value'')])
         in if truthy assignmentPayload \<and> typeof_object assignmentPayload
               \<and> kw_in assignmentPayload ''key'' \<and> kw_in assignmentPayload ''value''
            then Inr \<lparr>r_expression = expression,
                      r_assignment = Some (js_String h (kw_get assignmentPayload ''key''),
                                           js_String h (kw_get assignmentPayload ''value'')),
                      r_plan = JUndefined\<rparr>
            else Inr \<lparr>r_expression = expression, r_assignment = None, r_plan = JUndefined\<rparr>)
      else
        Inr \<lparr>r_expression = coalesce (kw_get payload ''when'')
                               (coalesce (kw_get payload ''expression'')
                                  (coalesce (kw_get payload ''criteria'') payload)),
             r_assignment = None,
             r_plan = coalesce (kw_get payload ''plan'') (coalesce (kw_get payload ''schedule'') payload)\<rparr>)"

text \<open>The state of the loop over the rules: the store and the three lists the loop fills.\<close>

record rule_state =
  st_db :: db
  st_evaluations :: "EvaluationDetail list"
  st_assignments :: "Assignment list"
  st_schedulePlans :: "SchedulePlanEntry list"

text \<open>One pass of the loop body; an error leaves the state as the previous pass left it.\<close>

definition evaluate_rule ::
    "host \<Rightarrow> EvaluationContext \<Rightarrow> int \<Rightarrow> string \<Rightarrow> rule_set_row \<Rightarrow> rule_state
      \<Rightarrow> js_error + rule_state" where
  "evaluate_rule h ruleContext submissionId submissionTime rule st =
     (let parsedExpression = parseJsonValue h (rs_expression_json rule) (JObj []) in
      case resolveRuleExpression h (rs_rule_type rule) parsedExpression of
        Inl e \<Rightarrow> Inl e
      | Inr resolved \<Rightarrow>
          (case (if truthy (r_expression resolved)
                 then evaluateExpression h (r_expression resolved) ruleContext
                 else Inr False) of
             Inl e \<Rightarrow> Inl e
           | Inr matched \<Rightarrow>
               (let assigned = (matched \<and> rs_rule_type rule = ''group_assignment''
                                 \<and> r_assignment resolved \<noteq> None);
                    planned = (matched \<and> rs_rule_type rule = ''scheduling''
                                \<and> r_plan resolved \<noteq> JUndefined);
                    evaluationDetail =
                      \<lparr>ed_rule_set_id = rs_id rule, ed_rule_type = rs_rule_type rule,
                       ed_name = rs_name rule, ed_matched = matched,
                       ed_assignment = (if assigned then r_assignment resolved else None),
                       ed_plan = (if planned then Some (r_plan resolved) else None)\<rparr>
                in Inr \<lparr>st_db = (st_db st)\<lparr>rule_evaluations := rule_evaluations (st_db st) @
                            [\<lparr>re_submission_id = submissionId, re_rule_set_id = rs_id rule,
                              re_result_bool = (if matched then 1 else 0),
                              re_result_json = evaluationDetail,
                              re_evaluated_at = submissionTime\<rparr>]\<rparr>,
                        st_evaluations = st_evaluations st @ [evaluationDetail],
                        st_assignments = st_assignments st @
                          (case r_assignment resolved of
                             Some (k, v) \<Rightarrow>
                               if assigned
                               then [\<lparr>as_rule_set_id = rs_id rule, as_group_key = k, as_group_value = v\<rparr>]
                               else []
                           | None \<Rightarrow> []),
                        st_schedulePlans = st_schedulePlans st @
                          (if planned then [\<lparr>sp_rule_set_id = rs_id rule, sp_plan = r_plan resolved\<rparr>]
                           else [])\<rparr>)))"

text \<open>
  The value of \<open>matched\<close> in a pass that completes: the rule's predicate is present and
  evaluates to true in the rule context.
\<close>

definition rule_matched :: "host \<Rightarrow> EvaluationContext \<Rightarrow> rule_set_row \<Rightarrow> bool" where
  "rule_matched h ruleContext rule =
     (case resolveRuleExpression h (rs_rule_type rule)
             (parseJsonValue h (rs_expression_json rule) (JObj [])) of
        Inl e \<Rightarrow> False
      | Inr resolved \<Rightarrow>
          truthy (r_expression resolved)
          \<and> evaluateExpression h (r_expression resolved) ruleContext = Inr True)"

fun run_rules ::
    "host \<Rightarrow> EvaluationContext \<Rightarrow> int \<Rightarrow> string \<Rightarrow> rule_set_row list \<Rightarrow> rule_state
      \<Rightarrow> js_error option \<times> rule_state" where
  "run_rules h ruleContext submissionId submissionTime [] st = (None, st)"
| "run_rules h ruleContext submissionId submissionTime (rule # rules) st =
     (case evaluate_rule h ruleContext submissionId submissionTime rule st of
        Inl e \<Rightarrow> (Some e, st)
      | Inr st' \<Rightarrow> run_rules h ruleContext submissionId submissionTime rules st')"

subsection \<open>handleIntakeSubmit\<close>

definition select_fields :: "db \<Rightarrow> int \<Rightarrow> FormFieldDefinition list" where
  "select_fields d formTemplateId =
     map ff_field (sort_key ff_order_index
       (filter (\<lambda>row. ff_form_template_id row = formTemplateId) (form_fields d)))"

definition select_compute_definitions :: "host \<Rightarrow> db \<Rightarrow> string \<Rightarrow> ComputeDefinition list" where
  "select_compute_definitions h d studyId =
     map (\<lambda>row. \<lparr>def_key = cd_key row, def_type = cd_type row,
                  def_definition = parseJsonValue h (cd_definition_json row) JNull\<rparr>)
       (filter (\<lambda>row. cd_study_id row = studyId \<and> cd_status row = ''published'') (compute_definitions d))"

definition select_rules :: "db \<Rightarrow> string \<Rightarrow> rule_set_row list" where
  "select_rules d studyId =
     filter (\<lambda>row. rs_study_id row = studyId \<and> rs_status row = ''published'') (rule_sets d)"

text \<open>The object literal \<open>metadata\<close>: five fixed entries, then the spread of the body's metadata.\<close>

definition build_metadata :: "string \<Rightarrow> string \<Rightarrow> IntakeBody \<Rightarrow> int \<Rightarrow> string \<Rightarrow> jsobject" where
  "build_metadata studyId participantId body submissionId submissionTime =
     fold (\<lambda>(k, v). AList.update k v)
       (case body_metadata body of Some m \<Rightarrow> m | None \<Rightarrow> [])
       [(''study_id'', JStr studyId),
        (''participant_id'', JStr participantId),
        (''form_template_id'', JNum (Fin (of_int (form_template_id body)))),
        (''submission_id'', JNum (Fin (of_int submissionId))),
        (''submitted_at'', JStr submissionTime)]"

text \<open>The handler from the insert of the submission onwards, reached when validation passed.\<close>

definition intake_after_validation ::
    "host \<Rightarrow> db \<Rightarrow> IntakeBody \<Rightarrow> string \<Rightarrow> string \<Rightarrow> string \<Rightarrow> string \<Rightarrow> response \<times> db" where
  "intake_after_validation h d body studyId participantId submissionTime auditTime =
     (let submissionId = next_id (map fs_id (form_submissions d));
          d1 = d\<lparr>form_submissions := form_submissions d @
                 [\<lparr>fs_id = submissionId, fs_study_id = studyId, fs_participant_id = participantId,
                   fs_form_template_id = form_template_id body,
                   fs_answers_json = body_answers body, fs_submitted_at = submissionTime\<rparr>]\<rparr>;
          computeDefinitionsList = select_compute_definitions h d1 studyId;
          md = build_metadata studyId participantId body submissionId submissionTime;
          evaluationContext = \<lparr>answers = body_answers body, computed = [], metadata = md\<rparr>
      in case computeDefinitions h computeDefinitionsList evaluationContext of
           Inl e \<Rightarrow> (Response 400 (ErrorBody (error_message e)), d1)
         | Inr computedValues \<Rightarrow>
             (let d2 = d1\<lparr>computed_values := computed_values d1 @
                         map (\<lambda>definition.
                               \<lparr>cv_submission_id = submissionId, cv_key = def_key definition,
                                cv_value_json = get_prop h (JObj computedValues) (def_key definition),
                                cv_computed_at = submissionTime\<rparr>)
                           computeDefinitionsList\<rparr>;
                  rules = select_rules d2 studyId;
                  ruleContext = \<lparr>answers = body_answers body, computed = computedValues, metadata = md\<rparr>
              in case run_rules h ruleContext submissionId submissionTime rules
                        \<lparr>st_db = d2, st_evaluations = [], st_assignments = [], st_schedulePlans = []\<rparr> of
                   (Some e, st) \<Rightarrow> (Response 400 (ErrorBody (error_message e)), st_db st)
                 | (None, st) \<Rightarrow>
                     (let d3 = (st_db st)\<lparr>participant_assignments := participant_assignments (st_db st) @
                                  map (\<lambda>a. \<lparr>pa_participant_id = participantId, pa_study_id = studyId,
                                            pa_group_key = as_group_key a,
                                            pa_group_value = as_group_value a,
                                            pa_assigned_at = submissionTime\<rparr>)
                                    (st_assignments st)\<rparr>;
                          schedulePlanPayload =
                            (if length (st_schedulePlans st) > 0 then Some (st_schedulePlans st) else None);
                          d4 = (case schedulePlanPayload of
                                  Some plans \<Rightarrow>
                                    d3\<lparr>schedule_plans := schedule_plans d3 @
                                         [\<lparr>spr_participant_id = participantId, spr_study_id = studyId,
                                           spr_plans = plans, spr_created_at = submissionTime\<rparr>]\<rparr>
                                | None \<Rightarrow> d3);
                          d5 = d4\<lparr>audit_logs := audit_logs d4 @
                                 [\<lparr>al_study_id = studyId, al_participant_id = participantId,
                                   al_action = ''intake_submitted'', al_entity_type = ''form_submission'',
                                   al_entity_id = toString_int submissionId,
                                   al_form_template_id = form_template_id body,
                                   al_computed_keys = map def_key computeDefinitionsList,
                                   al_rule_count = length (st_evaluations st),
                                   al_created_at = auditTime\<rparr>]\<rparr>
                      in (Response 201 (EnvelopeBody
                            \<lparr>env_submission =
                               \<lparr>sub_id = submissionId, sub_study_id = studyId,
                                sub_participant_id = participantId,
                                sub_form_template_id = form_template_id body,
                                sub_submitted_at = submissionTime\<rparr>,
                             env_answers = body_answers body,
                             env_computed = computedValues,
                             env_rule_evaluations = st_evaluations st,
                             env_assignments = st_assignments st,
                             env_schedule_plan = schedulePlanPayload\<rparr>), d5))))"

text \<open>
  \<open>handleIntakeSubmit\<close>.  The two clock readings (\<open>submissionTime\<close>, and the time stamp of
  the audit record) are arguments.  Without a store (\<open>env.DB\<close> undefined) every query
  yields \<open>undefined\<close> and the template is not found.
\<close>

definition handleIntakeSubmit ::
    "host \<Rightarrow> db option \<Rightarrow> request \<Rightarrow> string \<Rightarrow> string \<Rightarrow> string \<Rightarrow> string \<Rightarrow> response \<times> db option" where
  "handleIntakeSubmit h env req studyId participantId submissionTime auditTime =
     (case req of
        Rejected msg \<Rightarrow> (Response 400 (ErrorBody msg), env)
      | Accepted body \<Rightarrow>
          (case env of
             None \<Rightarrow> (Response 404 (ErrorBody ''Form template not found''), None)
           | Some d \<Rightarrow>
               (case find (\<lambda>t. ft_id t = form_template_id body \<and> ft_study_id t = studyId)
                       (form_templates d) of
                  None \<Rightarrow> (Response 404 (ErrorBody ''Form template not found''), Some d)
                | Some template \<Rightarrow>
                    (let validation = validateAnswers h (select_fields d (form_template_id body))
                                        (body_answers body)
                     in if \<not> valid validation then
                          (Response 400 (ValidationErrorBody ''Validation failed'' (errors validation)),
                           Some d)
                        else
                          (case intake_after_validation h d body studyId participantId
                                  submissionTime auditTime of
                             (resp, d') \<Rightarrow> (resp, Some d'))))))"

text \<open>
  The published scheduling rules of a study that match for a submission: the rule context
  is made of the answers, the computed values and the metadata of that submission.
\<close>

definition matched_scheduling_rules ::
    "host \<Rightarrow> db \<Rightarrow> string \<Rightarrow> string \<Rightarrow> IntakeBody \<Rightarrow> string \<Rightarrow> Envelope \<Rightarrow> rule_set_row list" where
  "matched_scheduling_rules h d studyId participantId body submissionTime e =
     filter (\<lambda>rule. rs_rule_type rule = ''scheduling'' \<and>
               rule_matched h
                 \<lparr>answers = env_answers e, computed = env_computed e,
                  metadata = build_metadata studyId participantId body
                               (sub_id (env_submission e)) submissionTime\<rparr> rule)
       (select_rules d studyId)"

section \<open>A reference host and example data\<close>

text \<open>
  The examples of this theory run on \<open>ref_host\<close>.  It fixes the library functions on the
  inputs that the examples use and is deliberately small:
  \<^item> \<open>Number\<close> on a string reads a decimal literal with an optional sign and fraction
    (no exponent, no radix prefix), the empty string as 0; on an empty array it is 0 and on
    every other object \<open>NaN\<close>;
  \<^item> \<open>Date.parse\<close> reads the ISO form \<open>YYYY-MM-DD\<close>;
  \<^item> \<open>JSON.parse\<close> knows the texts listed in \<open>ref_JSON_table\<close>;
  \<^item> the prototype of a plain object has the property names of \<open>Object.prototype\<close>, the
    prototype chain of an array those and the methods of \<open>Array.prototype\<close>;
  \<^item> no two object values are the same object, and every pattern is a valid regular
    expression that every string matches;
  \<^item> \<open>safeParse\<close> follows the schema library on the combinators of \<open>zschema\<close>.
\<close>

definition ref_Number_str :: "string \<Rightarrow> jsnum" where
  "ref_Number_str s =
     (let t = trim s in
      if t = [] then Fin 0
      else
        (let neg = (hd t = CHR ''-'');
             digits = (if hd t = CHR ''-'' \<or> hd t = CHR ''+'' then tl t else t);
             sgn = (if neg then - 1 else 1)
         in if digits = ''Infinity'' then (if neg then NInf else PInf)
            else (case split_on CHR ''.'' digits of
                    [i] \<Rightarrow>
                      if i \<noteq> [] \<and> list_all is_digit i then Fin (sgn * of_nat (digits_value i))
                      else NaN
                  | [i, f] \<Rightarrow>
                      if (i \<noteq> [] \<or> f \<noteq> []) \<and> list_all is_digit i \<and> list_all is_digit f
                      then Fin (sgn * (of_nat (digits_value i) + of_nat (digits_value f) / 10 ^ length f))
                      else NaN
                  | _ \<Rightarrow> NaN)))"

definition ref_Number_obj :: "jsval \<Rightarrow> jsnum" where
  "ref_Number_obj v = (if v = JArr [] then Fin 0 else NaN)"

fun ref_String :: "jsval \<Rightarrow> string" where
  "ref_String (JStr s) = s"
| "ref_String JUndefined = ''undefined''"
| "ref_String JNull = ''null''"
| "ref_String (JBool b) = (if b then ''true'' else ''false'')"
| "ref_String (JNum (Fin r)) = (if of_int \<lfloor>r\<rfloor> = r then toString_int \<lfloor>r\<rfloor> else [])"
| "ref_String (JNum PInf) = ''Infinity''"
| "ref_String (JNum NInf) = ''-Infinity''"
| "ref_String (JNum NaN) = ''NaN''"
| "ref_String (JObj kvs) = ''[object Object]''"
| "ref_String _ = []"

definition days_from_civil :: "int \<Rightarrow> int \<Rightarrow> int \<Rightarrow> int" where
  "days_from_civil y m d =
     (let y' = (if m \<le> 2 then y - 1 else y);
          era = y' div 400;
          yoe = y' - era * 400;
          doy = (153 * (if m > 2 then m - 3 else m + 9) + 2) div 5 + d - 1;
          doe = yoe * 365 + yoe div 4 - yoe div 100 + doy
      in era * 146097 + doe - 719468)"

definition ref_Date_parse :: "string \<Rightarrow> int option" where
  "ref_Date_parse s =
     (case split_on CHR ''-'' s of
        [y, m, d] \<Rightarrow>
          if digits_n 4 y \<and> digits_n 2 m \<and> digits_n 2 d
             \<and> 1 \<le> digits_value m \<and> digits_value m \<le> 12
             \<and> 1 \<le> digits_value d \<and> digits_value d \<le> 31
          then Some (days_from_civil (int (digits_value y)) (int (digits_value m)) (int (digits_value d))
                     * 86400000)
          else None
      | _ \<Rightarrow> None)"

definition Object_prototype_names :: "string list" where
  "Object_prototype_names =
     [''constructor'', ''hasOwnProperty'', ''isPrototypeOf'', ''propertyIsEnumerable'',
      ''toLocaleString'', ''toString'', ''valueOf'', ''__defineGetter__'', ''__defineSetter__'',
      ''__lookupGetter__'', ''__lookupSetter__'']"

definition Array_prototype_names :: "string list" where
  "Array_prototype_names =
     [''constructor'', ''at'', ''concat'', ''copyWithin'', ''entries'', ''every'', ''fill'', ''filter'', ''find'',
      ''findIndex'', ''findLast'', ''findLastIndex'', ''flat'', ''flatMap'', ''forEach'',
      ''includes'', ''indexOf'', ''join'', ''keys'', ''lastIndexOf'', ''map'', ''pop'', ''push'',
      ''reduce'', ''reduceRight'', ''reverse'', ''shift'', ''slice'', ''some'', ''sort'',
      ''splice'', ''toReversed'', ''toSorted'', ''toSpliced'', ''unshift'', ''values'', ''with'']"

fun ref_proto :: "proto_kind \<Rightarrow> string \<Rightarrow> (string \<times> bool) option" where
  "ref_proto OfObject k =
     (if k \<in> set Object_prototype_names then Some (''Object.prototype.'' @ k, True)
      else if k = ''__proto__'' then Some (''Object.prototype'', False)
      else None)"
| "ref_proto OfArray k =
     (if k \<in> set Array_prototype_names then Some (''Array.prototype.'' @ k, True)
      else if k \<in> set Object_prototype_names then Some (''Object.prototype.'' @ k, True)
      else if k = ''__proto__'' then Some (''Array.prototype'', False)
      else None)"
| "ref_proto OfDate k =
     (if k \<in> set Object_prototype_names then Some (''Object.prototype.'' @ k, True)
      else if k = ''__proto__'' then Some (''Date.prototype'', False)
      else None)"
| "ref_proto (OfBuiltin n) k = None"

text \<open>JSON texts; \<open>q\<close> puts a string between double quotes.\<close>

definition q :: "string \<Rightarrow> string" where
  "q s = CHR 0x22 # s @ [CHR 0x22]"

definition json_min_18 :: string where
  "json_min_18 = ''{'' @ q ''min'' @ '':18}''"

definition json_sleep_duration :: string where
  "json_sleep_duration =
     ''{'' @ q ''func'' @ '':'' @ q ''duration'' @ '','' @ q ''args'' @ '':[{'' @ q ''var'' @ '':''
       @ q ''answers.sleep_start'' @ ''},{'' @ q ''var'' @ '':'' @ q ''answers.sleep_end'' @ ''}]}''"

definition json_age_at_least_18 :: string where
  "json_age_at_least_18 =
     ''{'' @ q ''op'' @ '':'' @ q ''>='' @ '','' @ q ''left'' @ '':{'' @ q ''var'' @ '':''
       @ q ''answers.age'' @ ''},'' @ q ''right'' @ '':{'' @ q ''value'' @ '':18}}''"

definition json_young_adult :: string where
  "json_young_adult =
     ''{'' @ q ''when'' @ '':{'' @ q ''op'' @ '':'' @ q ''between'' @ '','' @ q ''left'' @ '':{''
       @ q ''var'' @ '':'' @ q ''answers.age'' @ ''},'' @ q ''min'' @ '':{'' @ q ''value'' @ '':18},''
       @ q ''max'' @ '':{'' @ q ''value'' @ '':30}},'' @ q ''assignment'' @ '':{'' @ q ''key'' @ '':''
       @ q ''cohort'' @ '','' @ q ''value'' @ '':'' @ q ''young-adult'' @ ''}}''"

definition json_baseline_schedule :: string where
  "json_baseline_schedule =
     ''{'' @ q ''when'' @ '':'' @ json_age_at_least_18 @ '','' @ q ''plan'' @ '':{'' @ q ''visit''
       @ '':'' @ q ''baseline'' @ '','' @ q ''offset_days'' @ '':7}}''"

definition json_computed_plus_1 :: "string \<Rightarrow> string" where
  "json_computed_plus_1 k =
     ''{'' @ q ''op'' @ '':'' @ q ''add'' @ '','' @ q ''args'' @ '':[{'' @ q ''var'' @ '':''
       @ q (''computed.'' @ k) @ ''},{'' @ q ''value'' @ '':1}]}''"

definition val_age_at_least_18 :: jsval where
  "val_age_at_least_18 =
     JObj [(''op'', JStr ''>=''), (''left'', JObj [(''var'', JStr ''answers.age'')]),
           (''right'', JObj [(''value'', JNum (Fin 18))])]"

definition val_computed_plus_1 :: "string \<Rightarrow> jsval" where
  "val_computed_plus_1 k =
     JObj [(''op'', JStr ''add''),
           (''args'', JArr [JObj [(''var'', JStr (''computed.'' @ k))], JObj [(''value'', JNum (Fin 1))]])]"

definition ref_JSON_table :: "(string \<times> jsval) list" where
  "ref_JSON_table =
     [(json_min_18, JObj [(''min'', JNum (Fin 18))]),
      (json_sleep_duration,
       JObj [(''func'', JStr ''duration''),
             (''args'', JArr [JObj [(''var'', JStr ''answers.sleep_start'')],
                              JObj [(''var'', JStr ''answers.sleep_end'')]])]),
      (json_age_at_least_18, val_age_at_least_18),
      (json_young_adult,
       JObj [(''when'', JObj [(''op'', JStr ''between''), (''left'', JObj [(''var'', JStr ''answers.age'')]),
                              (''min'', JObj [(''value'', JNum (Fin 18))]),
                              (''max'', JObj [(''value'', JNum (Fin 30))])]),
             (''assignment'', JObj [(''key'', JStr ''cohort''), (''value'', JStr ''young-adult'')])]),
      (json_baseline_schedule,
       JObj [(''when'', val_age_at_least_18),
             (''plan'', JObj [(''visit'', JStr ''baseline''), (''offset_days'', JNum (Fin 7))])]),
      (json_computed_plus_1 ''a'', val_computed_plus_1 ''a''),
      (json_computed_plus_1 ''b'', val_computed_plus_1 ''b'')]"

definition ref_JSON_parse :: "string \<Rightarrow> jsval option" where
  "ref_JSON_parse s = map_of ref_JSON_table s"

text \<open>The schema library on the combinators: the parsed value, if the type fits, and the issues.\<close>

fun type_name :: "jsval \<Rightarrow> string" where
  "type_name JUndefined = ''undefined''"
| "type_name JNull = ''null''"
| "type_name (JBool b) = ''boolean''"
| "type_name (JNum n) = (if n = NaN then ''nan'' else ''number'')"
| "type_name (JStr s) = ''string''"
| "type_name (JDate d) = ''date''"
| "type_name (JArr xs) = ''array''"
| "type_name (JObj kvs) = ''object''"
| "type_name (JBuiltin n callable) = (if callable then ''function'' else ''object'')"

definition num_lt :: "jsnum \<Rightarrow> jsnum \<Rightarrow> bool" where
  "num_lt a b = (num_less a b = Some True)"

fun ref_parse :: "zschema \<Rightarrow> jsval \<Rightarrow> jsval option \<times> string list" where
  "ref_parse (ZCoerceNumber msg) v =
     (let n = (case v of JNum x \<Rightarrow> x | JStr s \<Rightarrow> ref_Number_str s | JNull \<Rightarrow> Fin 0
                | JBool b \<Rightarrow> Fin (if b then 1 else 0) | JUndefined \<Rightarrow> NaN
                | JDate d \<Rightarrow> (case d of Some ms \<Rightarrow> Fin (of_int ms) | None \<Rightarrow> NaN)
                | _ \<Rightarrow> ref_Number_obj v)
      in if n = NaN then (None, [msg]) else (Some (JNum n), []))"
| "ref_parse (ZBoolean msg) v = (case v of JBool b \<Rightarrow> (Some v, []) | _ \<Rightarrow> (None, [msg]))"
| "ref_parse ZString v =
     (case v of JStr s \<Rightarrow> (Some v, []) | _ \<Rightarrow> (None, [''Expected string, received '' @ type_name v]))"
| "ref_parse ZArrayOfString v =
     (case v of
        JArr xs \<Rightarrow>
          (case filter (\<lambda>x. type_name x \<noteq> ''string'') xs of
             [] \<Rightarrow> (Some v, [])
           | bad \<Rightarrow> (None, map (\<lambda>x. ''Expected string, received '' @ type_name x) bad))
      | _ \<Rightarrow> (None, [''Expected array, received '' @ type_name v]))"
| "ref_parse (ZMin s n) v =
     (case ref_parse s v of
        (Some (JNum x), issues) \<Rightarrow>
          (Some (JNum x), issues @
             (if num_lt x n then [''Number must be greater than or equal to '' @ ref_String (JNum n)] else []))
      | (Some (JStr t), issues) \<Rightarrow>
          (Some (JStr t), issues @
             (if num_lt (Fin (of_nat (length t))) n
              then [''String must contain at least '' @ ref_String (JNum n) @ '' character(s)''] else []))
      | r \<Rightarrow> r)"
| "ref_parse (ZMax s n) v =
     (case ref_parse s v of
        (Some (JNum x), issues) \<Rightarrow>
          (Some (JNum x), issues @
             (if num_lt n x then [''Number must be less than or equal to '' @ ref_String (JNum n)] else []))
      | (Some (JStr t), issues) \<Rightarrow>
          (Some (JStr t), issues @
             (if num_lt n (Fin (of_nat (length t)))
              then [''String must contain at most '' @ ref_String (JNum n) @ '' character(s)''] else []))
      | r \<Rightarrow> r)"
| "ref_parse (ZRegexTime s msg) v =
     (case ref_parse s v of
        (Some (JStr t), issues) \<Rightarrow> (Some (JStr t), issues @ (if TIME_REGEX_test t then [] else [msg]))
      | r \<Rightarrow> r)"
| "ref_parse (ZRegexPattern s p) v = ref_parse s v"
| "ref_parse (ZRefineDateParses s msg) v =
     (case ref_parse s v of
        (Some (JStr t), issues) \<Rightarrow>
          (Some (JStr t), issues @ (if ref_Date_parse t \<noteq> None then [] else [msg]))
      | r \<Rightarrow> r)"
| "ref_parse (ZRefineIncluded s opts msg) v =
     (case ref_parse s v of
        (Some x, issues) \<Rightarrow> (Some x, issues @ (if x \<in> set opts then [] else [msg]))
      | r \<Rightarrow> r)"
| "ref_parse (ZRefineAllIncluded s opts msg) v =
     (case ref_parse s v of
        (Some (JArr xs), issues) \<Rightarrow>
          (Some (JArr xs), issues @ (if list_all (\<lambda>x. x \<in> set opts) xs then [] else [msg]))
      | r \<Rightarrow> r)"

definition ref_safeParse :: "zschema \<Rightarrow> jsval \<Rightarrow> zresult" where
  "ref_safeParse s v = (case snd (ref_parse s v) of [] \<Rightarrow> ZSuccess | issues \<Rightarrow> ZFailure issues)"

definition ref_host :: host where
  "ref_host =
     \<lparr>Number_str = ref_Number_str, Number_obj = ref_Number_obj, js_String = ref_String,
      Date_parse = ref_Date_parse, JSON_parse = ref_JSON_parse, proto = ref_proto,
      same_ref = (\<lambda>a b. False), zod_safeParse = ref_safeParse, RegExp_valid = (\<lambda>p. True)\<rparr>"

subsection \<open>The store and the request of the handler's own test\<close>

definition sleep_fields :: "form_field_row list" where
  "sleep_fields =
     [\<lparr>ff_form_template_id = 1, ff_order_index = 0,
       ff_field = \<lparr>field_key = ''age'', field_type = ''number'', field_required = JNum (Fin 1),
                   options_json = JNull, validation_json = JStr json_min_18\<rparr>\<rparr>,
      \<lparr>ff_form_template_id = 1, ff_order_index = 1,
       ff_field = \<lparr>field_key = ''sleep_start'', field_type = ''time'', field_required = JNum (Fin 1),
                   options_json = JNull, validation_json = JNull\<rparr>\<rparr>,
      \<lparr>ff_form_template_id = 1, ff_order_index = 2,
       ff_field = \<lparr>field_key = ''sleep_end'', field_type = ''time'', field_required = JNum (Fin 1),
                   options_json = JNull, validation_json = JNull\<rparr>\<rparr>]"

definition sleep_db :: db where
  "sleep_db =
     \<lparr>form_templates = [\<lparr>ft_id = 1, ft_study_id = ''study-42''\<rparr>],
      form_fields = sleep_fields,
      compute_definitions =
        [\<lparr>cd_study_id = ''study-42'', cd_status = ''published'', cd_key = ''sleep_duration'',
          cd_type = ''number'', cd_definition_json = json_sleep_duration\<rparr>],
      rule_sets =
        [\<lparr>rs_id = 1, rs_study_id = ''study-42'', rs_status = ''published'',
          rs_rule_type = ''eligibility'', rs_name = ''Age check'',
          rs_expression_json = json_age_at_least_18\<rparr>,
         \<lparr>rs_id = 2, rs_study_id = ''study-42'', rs_status = ''published'',
          rs_rule_type = ''group_assignment'', rs_name = ''Young adult cohort'',
          rs_expression_json = json_young_adult\<rparr>,
         \<lparr>rs_id = 3, rs_study_id = ''study-42'', rs_status = ''published'',
          rs_rule_type = ''scheduling'', rs_name = ''Baseline schedule'',
          rs_expression_json = json_baseline_schedule\<rparr>],
      form_submissions = [], computed_values = [], rule_evaluations = [],
      participant_assignments = [], schedule_plans = [], audit_logs = []\<rparr>"

definition sleep_body :: "jsval \<Rightarrow> IntakeBody" where
  "sleep_body age =
     \<lparr>form_template_id = 1,
      body_answers = [(''age'', age), (''sleep_start'', JStr ''22:00''), (''sleep_end'', JStr ''06:00'')],
      body_metadata = None\<rparr>"

text \<open>The same store with two compute definitions that refer to each other.\<close>

definition cycle_db :: db where
  "cycle_db =
     sleep_db\<lparr>compute_definitions :=
        [\<lparr>cd_study_id = ''study-42'', cd_status = ''published'', cd_key = ''a'',
          cd_type = ''number'', cd_definition_json = json_computed_plus_1 ''b''\<rparr>,
         \<lparr>cd_study_id = ''study-42'', cd_status = ''published'', cd_key = ''b'',
          cd_type = ''number'', cd_definition_json = json_computed_plus_1 ''a''\<rparr>]\<rparr>"


definition sleep_envelope :: Envelope where
  "sleep_envelope =
     \<lparr>env_submission =
        \<lparr>sub_id = 1, sub_study_id = ''study-42'', sub_participant_id = ''participant-007'',
         sub_form_template_id = 1, sub_submitted_at = ''2026-02-13T08:00:00.000Z''\<rparr>,
      env_answers = body_answers (sleep_body (JNum (Fin 24))),
      env_computed = [(''sleep_duration'', JNum (Fin 480))],
      env_rule_evaluations =
        [\<lparr>ed_rule_set_id = 1, ed_rule_type = ''eligibility'', ed_name = ''Age check'',
          ed_matched = True, ed_assignment = None, ed_plan = None\<rparr>,
         \<lparr>ed_rule_set_id = 2, ed_rule_type = ''group_assignment'', ed_name = ''Young adult cohort'',
          ed_matched = True, ed_assignment = Some (''cohort'', ''young-adult''), ed_plan = None\<rparr>,
         \<lparr>ed_rule_set_id = 3, ed_rule_type = ''scheduling'', ed_name = ''Baseline schedule'',
          ed_matched = True, ed_assignment = None,
          ed_plan = Some (JObj [(''visit'', JStr ''baseline''), (''offset_days'', JNum (Fin 7))])\<rparr>],
      env_assignments =
        [\<lparr>as_rule_set_id = 2, as_group_key = ''cohort'', as_group_value = ''young-adult''\<rparr>],
      env_schedule_plan =
        Some [\<lparr>sp_rule_set_id = 3,
               sp_plan = JObj [(''visit'', JStr ''baseline''), (''offset_days'', JNum (Fin 7))]\<rparr>]\<rparr>"

text \<open>
  A definition under a key with a dot that refers to its own key, alone and next to a
  definition whose value has a property of that name; and a definition under a name that
  every object inherits.
\<close>

definition self_reference :: ComputeDefinition where
  "self_reference =
     \<lparr>def_key = ''profile.score'', def_type = ''number'',
      def_definition = val_computed_plus_1 ''profile.score''\<rparr>"

definition profile_definition :: ComputeDefinition where
  "profile_definition =
     \<lparr>def_key = ''profile'', def_type = ''object'',
      def_definition = JObj [(''value'', JObj [(''score'', JNum (Fin 1))])]\<rparr>"

definition constructor_definition :: ComputeDefinition where
  "constructor_definition =
     \<lparr>def_key = ''constructor'', def_type = ''number'',
      def_definition = JObj [(''value'', JNum (Fin 1))]\<rparr>"

definition no_context :: EvaluationContext where
  "no_context = \<lparr>answers = [], computed = [], metadata = []\<rparr>"

definition cycle_definitions :: "ComputeDefinition list" where
  "cycle_definitions =
     [\<lparr>def_key = ''a'', def_type = ''number'', def_definition = val_computed_plus_1 ''b''\<rparr>,
      \<lparr>def_key = ''b'', def_type = ''number'', def_definition = val_computed_plus_1 ''a''\<rparr>]"


section \<open>Properties of the time helpers\<close>

lemma durationMinutes_Some:
  "durationMinutes a b = Some d \<longleftrightarrow>
     (\<exists>x y. parseTimeToMinutes a = Some x \<and> parseTimeToMinutes b = Some y \<and>
            d = (if y - x < 0 then y - x + 24 * 60 else y - x))"
  by (auto simp: durationMinutes_def Let_def split: option.splits)

text \<open>
  C6 (normalize_time is idempotent).  The minutes are rounded after the hour has been taken,
  so a value within half a minute below a full hour is printed with the minute field 60; the
  result is not canonical and normalises to a different string.  The time of day 00:59:30
  becomes 00:60, and 00:60 becomes 01:00.
\<close>

theorem normalizeTime_rounds_up_to_60:
  "normalizeTime (JStr ''00:59:30'') = Some ''00:60'' \<and>
   normalizeTime (JStr ''00:60'') = Some ''01:00''"
  by code_simp



section \<open>Properties of the arithmetic operators\<close>

lemma arith_number_eq: "arith_number h v = js_Number h v"
  by (cases v) (auto simp: arith_number_def split: jsnum.splits)

lemma foldl_add_Fin: "foldl js_add (Fin a) (map Fin rs) = Fin (foldl (+) a rs)"
  by (induction rs arbitrary: a) auto
lemma foldl_sub_Fin: "foldl js_sub (Fin a) (map Fin rs) = Fin (foldl (-) a rs)"
  by (induction rs arbitrary: a) (auto simp: js_sub_def)
lemma foldl_mul_Fin: "foldl js_mul (Fin a) (map Fin rs) = Fin (foldl (*) a rs)"
  by (induction rs arbitrary: a) auto
lemma foldl_div_Fin: "0 \<notin> set rs \<Longrightarrow> foldl js_div (Fin a) (map Fin rs) = Fin (foldl (/) a rs)"
  by (induction rs arbitrary: a) auto

lemma not_finite_map_Fin: "\<not> list_ex (\<lambda>n. \<not> isFinite n) (map Fin rs)"
  by (induction rs) auto



section \<open>Properties of the comparison coercion\<close>

lemma compareOperands_None:
  "toComparable h l = None \<or> toComparable h r = None \<Longrightarrow> compareOperands h op l r = False"
  by (auto simp: compareOperands_def split: option.splits)



section \<open>Properties of the path resolver\<close>

lemma digit_char_props:
  "d < 10 \<Longrightarrow> is_digit (digit_char d) \<and> digit_value (digit_char d) = d"
proof -
  assume "d < 10"
  then have "d \<in> {0, 1, 2, 3, 4, 5, 6, 7, 8, 9}" by auto
  then show ?thesis
    by (auto simp: is_digit_def digit_char_def digit_value_def)
qed

lemma digits_value_snoc: "digits_value (s @ [c]) = 10 * digits_value s + digit_value c"
  by (simp add: digits_value_def)

lemma show_nat_props:
  "show_nat n \<noteq> [] \<and> list_all is_digit (show_nat n) \<and> digits_value (show_nat n) = n"
proof (induction n rule: show_nat.induct)
  case (1 n)
  show ?case
  proof (cases "n < 10")
    case True
    then show ?thesis
      using digit_char_props [of n] by (simp add: show_nat.simps [of n] digits_value_def)
  next
    case False
    have m: "n mod 10 < 10" by simp
    from False 1 have ih: "show_nat (n div 10) \<noteq> [] \<and> list_all is_digit (show_nat (n div 10))
        \<and> digits_value (show_nat (n div 10)) = n div 10" by simp
    from False have eq: "show_nat n = show_nat (n div 10) @ [digit_char (n mod 10)]"
      by (simp add: show_nat.simps [of n])
    show ?thesis
      using ih digit_char_props [OF m] by (simp add: eq digits_value_snoc)
  qed
qed

lemma array_index_show_nat: "i < n \<Longrightarrow> array_index (show_nat i) n = Some i"
  using show_nat_props [of i] by (simp add: array_index_def)

lemma resolvePath_undefined: "resolvePath h JUndefined path = JUndefined"
  by (induction path) (simp_all add: resolvePath_def resolvePath_step_def)

lemma resolvePath_Nil: "resolvePath h target [] = target"
  by (simp add: resolvePath_def)

lemma resolvePath_Cons:
  "resolvePath h target (seg # path) = resolvePath h (resolvePath_step h target seg) path"
  by (simp add: resolvePath_def)

lemma show_nat_not_length: "show_nat i \<noteq> ''length''"
proof
  assume "show_nat i = ''length''"
  with show_nat_props [of i] have "list_all is_digit ''length''" by simp
  then show False by (simp add: is_digit_def)
qed

text \<open>
  C5, amended: the resolver splits the path at the dots; the first piece selects the scope
  \<open>answers\<close>, \<open>computed\<close> or \<open>metadata\<close> and any other scope yields \<open>undefined\<close>; the
  remaining pieces walk the value: an own property of an object leads to its value, a name
  that the current value neither owns nor inherits yields \<open>undefined\<close> for the whole path,
  and so does every value that is not an object.  It is a total function (it never throws).
  An array is walked like any object: the decimal spelling of a position below its length
  leads to that element, and \<open>length\<close> to its length.
\<close>

theorem resolveVariable_walk:
  "(case split_on CHR ''.'' variable of
      [] \<Rightarrow> False
    | scope # path \<Rightarrow>
        resolveVariable h variable ctx =
          (if scope = ''answers'' then resolvePath h (JObj (answers ctx)) path
           else if scope = ''computed'' then resolvePath h (JObj (computed ctx)) path
           else if scope = ''metadata'' then resolvePath h (JObj (metadata ctx)) path
           else JUndefined))
   \<and> resolvePath h target [] = target
   \<and> (map_of kvs seg = Some v \<longrightarrow> resolvePath h (JObj kvs) (seg # path') = resolvePath h v path')
   \<and> (own_prop target seg = None \<and> inherited h target seg = None \<longrightarrow>
        resolvePath h target (seg # path') = JUndefined)
   \<and> (\<not> is_object target \<longrightarrow> resolvePath h target (seg # path') = JUndefined)
   \<and> (i < length xs \<longrightarrow> resolvePath h (JArr xs) (show_nat i # path') = resolvePath h (xs ! i) path')
   \<and> resolvePath h (JArr xs) (''length'' # path') = resolvePath h (JNum (Fin (of_nat (length xs)))) path'"
proof (intro conjI impI)
  show "case split_on CHR ''.'' variable of
      [] \<Rightarrow> False
    | scope # path \<Rightarrow>
        resolveVariable h variable ctx =
          (if scope = ''answers'' then resolvePath h (JObj (answers ctx)) path
           else if scope = ''computed'' then resolvePath h (JObj (computed ctx)) path
           else if scope = ''metadata'' then resolvePath h (JObj (metadata ctx)) path
           else JUndefined)"
  proof (cases "split_on CHR ''.'' variable")
    case Nil
    then show ?thesis by (cases variable) (auto split: if_splits list.splits)
  next
    case (Cons scope path)
    then show ?thesis
      by (cases path) (simp_all add: resolveVariable_def resolvePath_def)
  qed
next
  show "resolvePath h target [] = target" by (simp add: resolvePath_def)
next
  assume "map_of kvs seg = Some v"
  then show "resolvePath h (JObj kvs) (seg # path') = resolvePath h v path'"
    by (simp add: resolvePath_Cons resolvePath_step_def has_prop_def get_prop_def)
next
  assume "own_prop target seg = None \<and> inherited h target seg = None"
  then show "resolvePath h target (seg # path') = JUndefined"
    by (simp add: resolvePath_Cons resolvePath_step_def has_prop_def resolvePath_undefined)
next
  assume "\<not> is_object target"
  then have "\<not> (truthy target \<and> typeof_object target)"
    by (cases target) auto
  then show "resolvePath h target (seg # path') = JUndefined"
    by (auto simp: resolvePath_Cons resolvePath_step_def resolvePath_undefined)
next
  assume "i < length xs"
  then show "resolvePath h (JArr xs) (show_nat i # path') = resolvePath h (xs ! i) path'"
    by (simp add: resolvePath_Cons resolvePath_step_def has_prop_def get_prop_def
        array_index_show_nat show_nat_not_length)
next
  show "resolvePath h (JArr xs) (''length'' # path') = resolvePath h (JNum (Fin (of_nat (length xs)))) path'"
    by (simp add: resolvePath_Cons resolvePath_step_def has_prop_def get_prop_def)
qed

text \<open>
  C5 as stated (a segment that addresses an array element yields \<open>undefined\<close>): the path
  \<open>answers.xs.0\<close> yields the first element of the array \<open>xs\<close>.
\<close>

theorem resolveVariable_array_counterexample:
  "resolveVariable ref_host ''answers.xs.0''
     \<lparr>answers = [(''xs'', JArr [JNum (Fin 10), JNum (Fin 20)])], computed = [], metadata = []\<rparr>
   = JNum (Fin 10)"
  by code_simp

theorem resolveVariable_walk_witness:
  "resolvePath ref_host (JObj [(''age'', JNum (Fin 24))]) [''age''] = JNum (Fin 24)
   \<and> resolvePath ref_host (JObj [(''age'', JNum (Fin 24))]) [''name'', ''first''] = JUndefined
   \<and> resolvePath ref_host (JStr ''abc'') [''length''] = JUndefined
   \<and> resolvePath ref_host (JArr [JStr ''a'', JStr ''b'']) [show_nat 1] = JStr ''b''
   \<and> resolveVariable ref_host ''elsewhere.age''
        \<lparr>answers = [(''age'', JNum (Fin 24))], computed = [], metadata = []\<rparr> = JUndefined"
proof -
  let ?kvs = "[(''age'', JNum (Fin 24))]"
  let ?ctx = "\<lparr>answers = ?kvs, computed = [], metadata = []\<rparr>"
  have a: "map_of ?kvs ''age'' = Some (JNum (Fin 24))" by simp
  have b: "own_prop (JObj ?kvs) ''name'' = None \<and> inherited ref_host (JObj ?kvs) ''name'' = None"
    by code_simp
  have c: "\<not> is_object (JStr ''abc'')" by simp
  have d: "(1::nat) < length [JStr ''a'', JStr ''b'']" by simp
  have e: "split_on CHR ''.'' ''elsewhere.age'' = [''elsewhere'', ''age'']" by code_simp
  from resolveVariable_walk [where h = ref_host and variable = "''elsewhere.age''" and ctx = ?ctx
      and kvs = ?kvs and seg = "''age''" and v = "JNum (Fin 24)" and path' = "[]"
      and target = "JStr ''abc''" and i = 1 and xs = "[JStr ''a'', JStr ''b'']"] a c d e
  have 1: "resolvePath ref_host (JObj ?kvs) [''age''] = JNum (Fin 24)"
    and 2: "resolvePath ref_host (JArr [JStr ''a'', JStr ''b'']) [show_nat 1] = JStr ''b''"
    and 3: "resolveVariable ref_host ''elsewhere.age'' ?ctx = JUndefined"
    by (simp_all add: resolvePath_Nil)
  from resolveVariable_walk [where h = ref_host and variable = "''elsewhere.age''" and ctx = ?ctx
      and seg = "''name''" and path' = "[''first'']" and target = "JObj ?kvs"] b
  have 4: "resolvePath ref_host (JObj ?kvs) [''name'', ''first''] = JUndefined" by blast
  from resolveVariable_walk [where h = ref_host and variable = "''elsewhere.age''" and ctx = ?ctx
      and seg = "''length''" and path' = "[]" and target = "JStr ''abc''"] c
  have 5: "resolvePath ref_host (JStr ''abc'') [''length''] = JUndefined" by blast
  from 1 2 3 4 5 show ?thesis by blast
qed
section \<open>Properties of the answer validator\<close>

lemma validateField_append: "validateField h ans errs f = errs @ validateField h ans [] f"
  by (simp add: validateField_def Let_def split: zresult.splits)

lemma foldl_validateField:
  "foldl (validateField h ans) errs flds = errs @ concat (map (validateField h ans []) flds)"
proof (induction flds arbitrary: errs)
  case Nil
  then show ?case by simp
next
  case (Cons f flds)
  have "foldl (validateField h ans) errs (f # flds)
      = foldl (validateField h ans) (validateField h ans errs f) flds" by simp
  also have "\<dots> = validateField h ans errs f @ concat (map (validateField h ans []) flds)"
    by (rule Cons.IH)
  also have "\<dots> = errs @ concat (map (validateField h ans []) (f # flds))"
    by (simp add: validateField_append [of h ans errs f])
  finally show ?case .
qed


section \<open>Properties of the intake handler\<close>

lemma resolveRuleExpression_plan:
  assumes "resolveRuleExpression h ''scheduling'' payload = Inr resolved"
  shows "r_plan resolved \<noteq> JUndefined"
  using assms
  by (auto simp: resolveRuleExpression_def coalesce_def nullish_def split: if_splits)

lemma evaluate_rule_frame:
  assumes "evaluate_rule h ruleContext sid t rule st = Inr st'"
  shows "form_submissions (st_db st') = form_submissions (st_db st)
    \<and> computed_values (st_db st') = computed_values (st_db st)
    \<and> schedule_plans (st_db st') = schedule_plans (st_db st)
    \<and> rule_sets (st_db st') = rule_sets (st_db st)"
  using assms
  by (auto simp: evaluate_rule_def Let_def split: sum.splits if_splits)

lemma evaluate_rule_plans:
  assumes "evaluate_rule h ruleContext sid t rule st = Inr st'"
  shows "map sp_rule_set_id (st_schedulePlans st')
      = map sp_rule_set_id (st_schedulePlans st)
        @ (if rs_rule_type rule = ''scheduling'' \<and> rule_matched h ruleContext rule
           then [rs_id rule] else [])"
proof (cases "rs_rule_type rule = ''scheduling''")
  case True
  from assms obtain resolved where
    r: "resolveRuleExpression h ''scheduling'' (parseJsonValue h (rs_expression_json rule) (JObj [])) = Inr resolved"
    by (auto simp: evaluate_rule_def Let_def True split: sum.splits)
  note p = resolveRuleExpression_plan [OF r]
  from assms r p show ?thesis
    by (auto simp: evaluate_rule_def rule_matched_def Let_def True split: sum.splits if_splits)
next
  case False
  with assms show ?thesis
    by (auto simp: evaluate_rule_def Let_def split: sum.splits if_splits)
qed

lemma run_rules_frame:
  assumes "run_rules h ruleContext sid t rules st = (r, st')"
  shows "form_submissions (st_db st') = form_submissions (st_db st)
    \<and> computed_values (st_db st') = computed_values (st_db st)
    \<and> schedule_plans (st_db st') = schedule_plans (st_db st)
    \<and> rule_sets (st_db st') = rule_sets (st_db st)"
  using assms
proof (induction rules arbitrary: st)
  case Nil
  then show ?case by simp
next
  case (Cons rule rules)
  show ?case
  proof (cases "evaluate_rule h ruleContext sid t rule st")
    case (Inl e)
    with Cons.prems show ?thesis by simp
  next
    case (Inr st1)
    with Cons.prems have "run_rules h ruleContext sid t rules st1 = (r, st')" by simp
    from Cons.IH [OF this] evaluate_rule_frame [OF Inr] show ?thesis by simp
  qed
qed

lemma run_rules_plans:
  assumes "run_rules h ruleContext sid t rules st = (None, st')"
  shows "map sp_rule_set_id (st_schedulePlans st')
      = map sp_rule_set_id (st_schedulePlans st)
        @ map rs_id (filter (\<lambda>rule. rs_rule_type rule = ''scheduling'' \<and> rule_matched h ruleContext rule) rules)"
  using assms
proof (induction rules arbitrary: st)
  case Nil
  then show ?case by simp
next
  case (Cons rule rules)
  show ?case
  proof (cases "evaluate_rule h ruleContext sid t rule st")
    case (Inl e)
    with Cons.prems show ?thesis by simp
  next
    case (Inr st1)
    with Cons.prems have "run_rules h ruleContext sid t rules st1 = (None, st')" by simp
    from Cons.IH [OF this] evaluate_rule_plans [OF Inr] show ?thesis by simp
  qed
qed

lemma intake_after_validation_submission:
  assumes "intake_after_validation h d body studyId participantId t0 t1 = (resp, d')"
  shows "form_submissions d' = form_submissions d @
           [\<lparr>fs_id = next_id (map fs_id (form_submissions d)), fs_study_id = studyId,
             fs_participant_id = participantId, fs_form_template_id = form_template_id body,
             fs_answers_json = body_answers body, fs_submitted_at = t0\<rparr>]"
  using assms
  by (auto simp: intake_after_validation_def Let_def
      split: sum.splits prod.splits option.splits dest!: run_rules_frame)

lemma intake_after_validation_compute_error:
  assumes "computeDefinitions h
             (select_compute_definitions h d studyId)
             \<lparr>answers = body_answers body, computed = [],
              metadata = build_metadata studyId participantId body
                           (next_id (map fs_id (form_submissions d))) t0\<rparr> = Inl e"
  shows "\<exists>d'. intake_after_validation h d body studyId participantId t0 t1
           = (Response 400 (ErrorBody (error_message e)), d')
         \<and> computed_values d' = computed_values d
         \<and> rule_evaluations d' = rule_evaluations d
         \<and> participant_assignments d' = participant_assignments d
         \<and> schedule_plans d' = schedule_plans d
         \<and> audit_logs d' = audit_logs d"
  using assms
  by (simp add: intake_after_validation_def Let_def select_compute_definitions_def)

lemma intake_after_validation_success:
  assumes "intake_after_validation h d body studyId participantId t0 t1
             = (Response 201 (EnvelopeBody e), d')"
  shows "sub_id (env_submission e) = next_id (map fs_id (form_submissions d))
    \<and> env_answers e = body_answers body
    \<and> (env_schedule_plan e = None \<longleftrightarrow>
         filter (\<lambda>rule. rs_rule_type rule = ''scheduling'' \<and>
                   rule_matched h \<lparr>answers = env_answers e, computed = env_computed e,
                                   metadata = build_metadata studyId participantId body
                                     (sub_id (env_submission e)) t0\<rparr> rule)
           (select_rules d studyId) = [])
    \<and> (\<forall>plans. env_schedule_plan e = Some plans \<longrightarrow>
          map sp_rule_set_id plans =
          map rs_id (filter (\<lambda>rule. rs_rule_type rule = ''scheduling'' \<and>
                   rule_matched h \<lparr>answers = env_answers e, computed = env_computed e,
                                   metadata = build_metadata studyId participantId body
                                     (sub_id (env_submission e)) t0\<rparr> rule)
           (select_rules d studyId)))
    \<and> schedule_plans d' = schedule_plans d @
          (case env_schedule_plan e of
             None \<Rightarrow> []
           | Some plans \<Rightarrow> [\<lparr>spr_participant_id = participantId, spr_study_id = studyId,
                              spr_plans = plans, spr_created_at = t0\<rparr>])"
proof -
  let ?sid = "next_id (map fs_id (form_submissions d))"
  let ?d1 = "d\<lparr>form_submissions := form_submissions d @
                 [\<lparr>fs_id = ?sid, fs_study_id = studyId, fs_participant_id = participantId,
                   fs_form_template_id = form_template_id body,
                   fs_answers_json = body_answers body, fs_submitted_at = t0\<rparr>]\<rparr>"
  let ?defs = "select_compute_definitions h ?d1 studyId"
  let ?md = "build_metadata studyId participantId body ?sid t0"
  let ?ctx0 = "\<lparr>answers = body_answers body, computed = [], metadata = ?md\<rparr>"
  from assms obtain cvs where cvs: "computeDefinitions h ?defs ?ctx0 = Inr cvs"
    by (cases "computeDefinitions h ?defs ?ctx0") (auto simp: intake_after_validation_def Let_def)
  let ?d2 = "?d1\<lparr>computed_values := computed_values ?d1 @
                 map (\<lambda>definition.
                       \<lparr>cv_submission_id = ?sid, cv_key = def_key definition,
                        cv_value_json = get_prop h (JObj cvs) (def_key definition),
                        cv_computed_at = t0\<rparr>) ?defs\<rparr>"
  let ?ctx = "\<lparr>answers = body_answers body, computed = cvs, metadata = ?md\<rparr>"
  let ?st0 = "\<lparr>st_db = ?d2, st_evaluations = [], st_assignments = [], st_schedulePlans = []\<rparr>"
  obtain r st where run: "run_rules h ?ctx ?sid t0 (select_rules ?d2 studyId) ?st0 = (r, st)"
    by (cases "run_rules h ?ctx ?sid t0 (select_rules ?d2 studyId) ?st0") auto
  from assms cvs run have r: "r = None"
    by (cases r) (auto simp: intake_after_validation_def Let_def)
  from assms cvs run r have e:
    "env_schedule_plan e = (if length (st_schedulePlans st) > 0 then Some (st_schedulePlans st) else None)"
    "env_computed e = cvs" "env_answers e = body_answers body" "sub_id (env_submission e) = ?sid"
    by (auto simp: intake_after_validation_def Let_def split: option.splits if_splits)
  from assms cvs run r have d': "schedule_plans d' = schedule_plans (st_db st) @
          (case env_schedule_plan e of
             None \<Rightarrow> []
           | Some plans \<Rightarrow> [\<lparr>spr_participant_id = participantId, spr_study_id = studyId,
                              spr_plans = plans, spr_created_at = t0\<rparr>])"
    by (auto simp: intake_after_validation_def Let_def split: option.splits if_splits)
  from run_rules_frame [OF run] have fr: "schedule_plans (st_db st) = schedule_plans d" by simp
  have rules: "select_rules ?d2 studyId = select_rules d studyId"
    by (simp add: select_rules_def)
  from run_rules_plans [OF run [unfolded r rules]] have plans:
    "map sp_rule_set_id (st_schedulePlans st)
      = map rs_id (filter (\<lambda>rule. rs_rule_type rule = ''scheduling'' \<and> rule_matched h ?ctx rule)
          (select_rules d studyId))"
    by simp
  show ?thesis
  proof (intro conjI allI impI)
    show "sub_id (env_submission e) = ?sid" by (rule e)
    show "env_answers e = body_answers body" by (rule e)
    show "schedule_plans d' = schedule_plans d @
          (case env_schedule_plan e of
             None \<Rightarrow> []
           | Some plans \<Rightarrow> [\<lparr>spr_participant_id = participantId, spr_study_id = studyId,
                              spr_plans = plans, spr_created_at = t0\<rparr>])"
      using d' fr by simp
    show "(env_schedule_plan e = None) \<longleftrightarrow>
         filter (\<lambda>rule. rs_rule_type rule = ''scheduling'' \<and>
                   rule_matched h \<lparr>answers = env_answers e, computed = env_computed e,
                                   metadata = build_metadata studyId participantId body
                                     (sub_id (env_submission e)) t0\<rparr> rule)
           (select_rules d studyId) = []"
    proof -
      have "(env_schedule_plan e = None) \<longleftrightarrow> map sp_rule_set_id (st_schedulePlans st) = []"
        by (simp add: e)
      then show ?thesis unfolding plans by (simp add: e)
    qed
  next
    fix plans assume "env_schedule_plan e = Some plans"
    then have "plans = st_schedulePlans st" by (simp add: e split: if_splits)
    then show "map sp_rule_set_id plans =
          map rs_id (filter (\<lambda>rule. rs_rule_type rule = ''scheduling'' \<and>
                   rule_matched h \<lparr>answers = env_answers e, computed = env_computed e,
                                   metadata = build_metadata studyId participantId body
                                     (sub_id (env_submission e)) t0\<rparr> rule)
           (select_rules d studyId))"
      using plans by (simp add: e)
  qed
qed

lemma handleIntakeSubmit_created:
  assumes "handleIntakeSubmit h env req studyId participantId t0 t1 = (Response 201 (EnvelopeBody e), env')"
  obtains d d' body where "env = Some d" "env' = Some d'" "req = Accepted body"
    "intake_after_validation h d body studyId participantId t0 t1 = (Response 201 (EnvelopeBody e), d')"
proof (cases req)
  case (Rejected msg)
  with assms show ?thesis by (simp add: handleIntakeSubmit_def)
next
  case (Accepted body)
  show ?thesis
  proof (cases env)
    case None
    with assms Accepted show ?thesis by (simp add: handleIntakeSubmit_def)
  next
    case (Some d)
    obtain resp d' where run: "intake_after_validation h d body studyId participantId t0 t1 = (resp, d')"
      by (cases "intake_after_validation h d body studyId participantId t0 t1") auto
    from assms Accepted Some run have "resp = Response 201 (EnvelopeBody e) \<and> env' = Some d'"
      by (simp add: handleIntakeSubmit_def Let_def split: option.splits if_splits)
    with run Accepted Some that show ?thesis by blast
  qed
qed



lemma sleep_created:
  "fst (handleIntakeSubmit ref_host (Some sleep_db) (Accepted (sleep_body (JNum (Fin 24))))
          ''study-42'' ''participant-007'' ''2026-02-13T08:00:00.000Z'' ''2026-02-13T08:00:00.100Z'')
   = Response 201 (EnvelopeBody sleep_envelope)"
  by code_simp


text \<open>
  C1: a request that \<open>parseBody\<close> rejects, or whose template is not found, never reaches
  validation and leaves the store as it was.  When the answers fail validation the handler
  returns status 400 with the error \<open>Validation failed\<close> and the issue list, and the store
  after the call is the store before it: no row of any table is written, the audit log
  included.  When the answers pass validation, the submission row is appended to
  \<open>form_submissions\<close>, whatever happens afterwards.
\<close>

theorem intake_validation_gate:
  "handleIntakeSubmit h env (Rejected msg) studyId participantId t0 t1
     = (Response 400 (ErrorBody msg), env)
   \<and> (find (\<lambda>t. ft_id t = form_template_id body \<and> ft_study_id t = studyId) (form_templates d) = None \<longrightarrow>
        handleIntakeSubmit h (Some d) (Accepted body) studyId participantId t0 t1
          = (Response 404 (ErrorBody ''Form template not found''), Some d))
   \<and> (find (\<lambda>t. ft_id t = form_template_id body \<and> ft_study_id t = studyId) (form_templates d) \<noteq> None
       \<and> \<not> valid (validateAnswers h (select_fields d (form_template_id body)) (body_answers body)) \<longrightarrow>
        handleIntakeSubmit h (Some d) (Accepted body) studyId participantId t0 t1
          = (Response 400 (ValidationErrorBody ''Validation failed''
               (errors (validateAnswers h (select_fields d (form_template_id body)) (body_answers body)))),
             Some d))
   \<and> (find (\<lambda>t. ft_id t = form_template_id body \<and> ft_study_id t = studyId) (form_templates d) \<noteq> None
       \<and> valid (validateAnswers h (select_fields d (form_template_id body)) (body_answers body)) \<longrightarrow>
        (\<exists>resp d'. handleIntakeSubmit h (Some d) (Accepted body) studyId participantId t0 t1
                     = (resp, Some d')
           \<and> form_submissions d' = form_submissions d @
               [\<lparr>fs_id = next_id (map fs_id (form_submissions d)), fs_study_id = studyId,
                 fs_participant_id = participantId, fs_form_template_id = form_template_id body,
                 fs_answers_json = body_answers body, fs_submitted_at = t0\<rparr>]))"
proof (intro conjI impI)
  show "handleIntakeSubmit h env (Rejected msg) studyId participantId t0 t1
     = (Response 400 (ErrorBody msg), env)"
    by (simp add: handleIntakeSubmit_def)
next
  assume "find (\<lambda>t. ft_id t = form_template_id body \<and> ft_study_id t = studyId) (form_templates d) = None"
  then show "handleIntakeSubmit h (Some d) (Accepted body) studyId participantId t0 t1
          = (Response 404 (ErrorBody ''Form template not found''), Some d)"
    by (simp add: handleIntakeSubmit_def)
next
  assume "find (\<lambda>t. ft_id t = form_template_id body \<and> ft_study_id t = studyId) (form_templates d) \<noteq> None
       \<and> \<not> valid (validateAnswers h (select_fields d (form_template_id body)) (body_answers body))"
  then show "handleIntakeSubmit h (Some d) (Accepted body) studyId participantId t0 t1
          = (Response 400 (ValidationErrorBody ''Validation failed''
               (errors (validateAnswers h (select_fields d (form_template_id body)) (body_answers body)))),
             Some d)"
    by (auto simp: handleIntakeSubmit_def Let_def)
next
  assume a: "find (\<lambda>t. ft_id t = form_template_id body \<and> ft_study_id t = studyId) (form_templates d) \<noteq> None
       \<and> valid (validateAnswers h (select_fields d (form_template_id body)) (body_answers body))"
  obtain resp d' where run: "intake_after_validation h d body studyId participantId t0 t1 = (resp, d')"
    by (cases "intake_after_validation h d body studyId participantId t0 t1") auto
  from a run have "handleIntakeSubmit h (Some d) (Accepted body) studyId participantId t0 t1
      = (resp, Some d')"
    by (auto simp: handleIntakeSubmit_def Let_def)
  with intake_after_validation_submission [OF run]
  show "\<exists>resp d'. handleIntakeSubmit h (Some d) (Accepted body) studyId participantId t0 t1
                     = (resp, Some d')
           \<and> form_submissions d' = form_submissions d @
               [\<lparr>fs_id = next_id (map fs_id (form_submissions d)), fs_study_id = studyId,
                 fs_participant_id = participantId, fs_form_template_id = form_template_id body,
                 fs_answers_json = body_answers body, fs_submitted_at = t0\<rparr>]"
    by blast
qed

theorem intake_validation_gate_witness:
  "handleIntakeSubmit ref_host (Some sleep_db) (Accepted (sleep_body (JNum (Fin 15))))
      ''study-42'' ''participant-007'' ''2026-02-13T08:00:00.000Z'' ''2026-02-13T08:00:00.100Z''
     = (Response 400 (ValidationErrorBody ''Validation failed''
          [\<lparr>issue_key = ''age'', message = ''Number must be greater than or equal to 18''\<rparr>]),
        Some sleep_db)
   \<and> (\<exists>resp d'. handleIntakeSubmit ref_host (Some sleep_db) (Accepted (sleep_body (JNum (Fin 24))))
          ''study-42'' ''participant-007'' ''2026-02-13T08:00:00.000Z'' ''2026-02-13T08:00:00.100Z''
          = (resp, Some d')
        \<and> form_submissions d' =
            [\<lparr>fs_id = 1, fs_study_id = ''study-42'', fs_participant_id = ''participant-007'',
              fs_form_template_id = 1, fs_answers_json = body_answers (sleep_body (JNum (Fin 24))),
              fs_submitted_at = ''2026-02-13T08:00:00.000Z''\<rparr>])
   \<and> handleIntakeSubmit ref_host (Some sleep_db) (Accepted (sleep_body (JNum (Fin 24))))
      ''study-43'' ''participant-007'' ''2026-02-13T08:00:00.000Z'' ''2026-02-13T08:00:00.100Z''
     = (Response 404 (ErrorBody ''Form template not found''), Some sleep_db)"
proof -
  let ?young = "sleep_body (JNum (Fin 15))"
  let ?adult = "sleep_body (JNum (Fin 24))"
  have found: "find (\<lambda>t. ft_id t = form_template_id b \<and> ft_study_id t = ''study-42'')
      (form_templates sleep_db) \<noteq> None" if "form_template_id b = 1" for b
    using that by (simp add: sleep_db_def)
  have missing: "find (\<lambda>t. ft_id t = form_template_id ?adult \<and> ft_study_id t = ''study-43'')
      (form_templates sleep_db) = None"
    by (simp add: sleep_db_def)
  have id: "form_template_id ?young = 1" "form_template_id ?adult = 1"
    by (simp_all add: sleep_body_def)
  have bad: "\<not> valid (validateAnswers ref_host (select_fields sleep_db (form_template_id ?young))
      (body_answers ?young))"
    by code_simp
  have issues: "errors (validateAnswers ref_host (select_fields sleep_db (form_template_id ?young))
      (body_answers ?young))
      = [\<lparr>issue_key = ''age'', message = ''Number must be greater than or equal to 18''\<rparr>]"
    by code_simp
  have good: "valid (validateAnswers ref_host (select_fields sleep_db (form_template_id ?adult))
      (body_answers ?adult))"
    by code_simp
  have empty: "form_submissions sleep_db = []" by (simp add: sleep_db_def)
  note G = intake_validation_gate [where h = ref_host and d = sleep_db and participantId = "''participant-007''"
      and ?t0.0 = "''2026-02-13T08:00:00.000Z''" and ?t1.0 = "''2026-02-13T08:00:00.100Z''"]
  from G [where body = ?young and studyId = "''study-42''"] found [OF id(1)] bad
  have 1: "handleIntakeSubmit ref_host (Some sleep_db) (Accepted ?young)
      ''study-42'' ''participant-007'' ''2026-02-13T08:00:00.000Z'' ''2026-02-13T08:00:00.100Z''
     = (Response 400 (ValidationErrorBody ''Validation failed''
          (errors (validateAnswers ref_host (select_fields sleep_db (form_template_id ?young))
             (body_answers ?young)))), Some sleep_db)"
    by blast
  from G [where body = ?adult and studyId = "''study-42''"] found [OF id(2)] good
  have 2: "\<exists>resp d'. handleIntakeSubmit ref_host (Some sleep_db) (Accepted ?adult)
          ''study-42'' ''participant-007'' ''2026-02-13T08:00:00.000Z'' ''2026-02-13T08:00:00.100Z''
          = (resp, Some d')
        \<and> form_submissions d' = form_submissions sleep_db @
            [\<lparr>fs_id = next_id (map fs_id (form_submissions sleep_db)), fs_study_id = ''study-42'',
              fs_participant_id = ''participant-007'', fs_form_template_id = form_template_id ?adult,
              fs_answers_json = body_answers ?adult,
              fs_submitted_at = ''2026-02-13T08:00:00.000Z''\<rparr>]"
    by blast
  from G [where body = ?adult and studyId = "''study-43''"] missing
  have 3: "handleIntakeSubmit ref_host (Some sleep_db) (Accepted ?adult)
      ''study-43'' ''participant-007'' ''2026-02-13T08:00:00.000Z'' ''2026-02-13T08:00:00.100Z''
     = (Response 404 (ErrorBody ''Form template not found''), Some sleep_db)"
    by blast
  from 2 have second: "\<exists>resp d'. handleIntakeSubmit ref_host (Some sleep_db) (Accepted ?adult)
          ''study-42'' ''participant-007'' ''2026-02-13T08:00:00.000Z'' ''2026-02-13T08:00:00.100Z''
          = (resp, Some d')
        \<and> form_submissions d' =
            [\<lparr>fs_id = 1, fs_study_id = ''study-42'', fs_participant_id = ''participant-007'',
              fs_form_template_id = 1, fs_answers_json = body_answers ?adult,
              fs_submitted_at = ''2026-02-13T08:00:00.000Z''\<rparr>]"
    by (simp add: empty id next_id_def)
  from 1 [unfolded issues] second 3 show ?thesis by (intro conjI)
qed
section \<open>Properties of the compute engine\<close>

lemma has_prop_JObj: "has_prop h (JObj cv) k \<longleftrightarrow> map_of cv k \<noteq> None \<or> proto h OfObject k \<noteq> None"
  by (simp add: has_prop_def inherited_def)

lemma map_of_keys: "map_of cv k \<noteq> None \<longleftrightarrow> k \<in> fst ` set cv"
  by (simp add: map_of_eq_None_iff)

lemma keys_iff: "k \<in> fst ` set cv \<longleftrightarrow> (\<exists>y. map_of cv k = Some y)"
  using map_of_keys [of cv k] by auto

lemma extends_refl: "extends cv cv" by (simp add: extends_def)

lemma extends_trans: "extends a b \<Longrightarrow> extends b c \<Longrightarrow> extends a c" by (simp add: extends_def)

lemma extends_keys: "extends cv cv' \<Longrightarrow> fst ` set cv \<subseteq> fst ` set cv'"
proof
  fix k assume e: "extends cv cv'" and "k \<in> fst ` set cv"
  then obtain x where "map_of cv k = Some x" using map_of_keys [of cv k] by auto
  with e have "map_of cv' k = Some x" by (simp add: extends_def)
  then show "k \<in> fst ` set cv'" using map_of_keys [of cv' k] by auto
qed

lemma definitionMap_get_keys:
  "definitionMap_get defs k \<noteq> None \<longleftrightarrow> k \<in> def_key ` set defs"
  by (auto simp: definitionMap_get_def map_of_eq_None_iff image_image)

lemma definitionMap_get_key: "definitionMap_get defs k = Some d \<Longrightarrow> k \<in> def_key ` set defs"
  using definitionMap_get_keys [of defs k] by simp

lemma update_absent: "k \<notin> fst ` set al \<Longrightarrow> AList.update k v al = al @ [(k, v)]"
  by (induction al) auto

lemma compute_post_refl_empty: "compute_post h defs V cv cv {}"
  by (simp add: compute_post_def extends_refl)

lemma compute_post_same:
  assumes "plain_keys h defs \<Longrightarrow> G \<inter> def_key ` set defs \<subseteq> fst ` set cv"
  shows "compute_post h defs V cv cv G"
  using assms by (simp add: compute_post_def extends_refl)

lemma compute_post_weaken:
  assumes "compute_post h defs V cv cv' G" and sub: "G' \<subseteq> G"
  shows "compute_post h defs V cv cv' G'"
proof -
  from sub have "G' \<inter> def_key ` set defs \<subseteq> fst ` set cv'"
    if "G \<inter> def_key ` set defs \<subseteq> fst ` set cv'" using that by blast
  with assms(1) show ?thesis unfolding compute_post_def by simp
qed

lemma compute_post_trans:
  assumes 1: "compute_post h defs V cv cv1 G1" and 2: "compute_post h defs V cv1 cv2 G2"
  shows "compute_post h defs V cv cv2 (G1 \<union> G2)"
proof -
  from 1 2 have e: "extends cv cv1" "extends cv1 cv2"
    and k: "fst ` set cv1 \<subseteq> fst ` set cv \<union> def_key ` set defs"
      "fst ` set cv2 \<subseteq> fst ` set cv1 \<union> def_key ` set defs"
    by (simp_all add: compute_post_def)
  note sub = extends_keys [OF e(2)]
  show ?thesis
    unfolding compute_post_def
  proof (intro conjI impI)
    show "extends cv cv2" using e by (rule extends_trans)
    show "fst ` set cv2 \<subseteq> fst ` set cv \<union> def_key ` set defs" using k by blast
  next
    assume a: "plain_keys h defs \<and> dependency_ordered (depends defs) (rev cv)
        \<and> fst ` set cv \<inter> set V = {}"
    with 1 have m: "dependency_ordered (depends defs) (rev cv1)" "fst ` set cv1 \<inter> set V = {}"
      "G1 \<inter> def_key ` set defs \<subseteq> fst ` set cv1"
      by (simp_all add: compute_post_def)
    with a 2 have n: "dependency_ordered (depends defs) (rev cv2)" "fst ` set cv2 \<inter> set V = {}"
      "G2 \<inter> def_key ` set defs \<subseteq> fst ` set cv2"
      by (simp_all add: compute_post_def)
    from n(1) show "dependency_ordered (depends defs) (rev cv2)" .
    from n(2) show "fst ` set cv2 \<inter> set V = {}" .
    from m(3) n(3) sub show "(G1 \<union> G2) \<inter> def_key ` set defs \<subseteq> fst ` set cv2" by blast
  qed
qed


lemma split_on_no_sep: "c \<notin> set s \<Longrightarrow> split_on c s = [s]"
  by (induction s) auto

lemma starts_with_computed:
  "starts_with ''computed.'' variable \<Longrightarrow> variable = ''computed.'' @ drop (length ''computed.'') variable"
  unfolding starts_with_def by (metis append_take_drop_id)

lemma resolveVariable_computed_key:
  assumes "CHR ''.'' \<notin> set k"
  shows "resolveVariable h (''computed.'' @ k) ctx = resolvePath_step h (JObj (computed ctx)) k"
  using split_on_no_sep [OF assms]
  by (simp add: resolveVariable_def resolvePath_def)

lemma resolvePath_step_defined:
  "resolvePath_step h (JObj cv) k \<noteq> JUndefined \<Longrightarrow> has_prop h (JObj cv) k"
  by (simp add: resolvePath_step_def split: if_splits)

lemma var_direct_post:
  assumes "\<not> (starts_with ''computed.'' variable
              \<and> resolveVariable h variable (ctx\<lparr>computed := cv\<rparr>) = JUndefined)"
  shows "compute_post h defs V cv cv
           (if starts_with ''computed.'' variable then {drop (length ''computed.'') variable} else {})"
proof (cases "starts_with ''computed.'' variable")
  case False
  then show ?thesis by (simp add: compute_post_refl_empty)
next
  case True
  let ?k = "drop (length ''computed.'') variable"
  from True have v: "variable = ''computed.'' @ ?k" by (rule starts_with_computed)
  from True assms have defined: "resolveVariable h variable (ctx\<lparr>computed := cv\<rparr>) \<noteq> JUndefined"
    by simp
  have "?k \<in> fst ` set cv" if plain: "plain_keys h defs" and key: "?k \<in> def_key ` set defs"
  proof -
    from plain key have nodot: "CHR ''.'' \<notin> set ?k" and noproto: "proto h OfObject ?k = None"
      by (auto simp: plain_keys_def)
    from resolveVariable_computed_key [OF nodot, of h "ctx\<lparr>computed := cv\<rparr>"] v defined
    have "resolvePath_step h (JObj cv) ?k \<noteq> JUndefined" by simp
    then have "has_prop h (JObj cv) ?k" by (rule resolvePath_step_defined)
    with noproto show ?thesis by (simp add: has_prop_JObj keys_iff)
  qed
  then have "{?k} \<inter> def_key ` set defs \<subseteq> fst ` set cv" if "plain_keys h defs"
    using that by blast
  then have "compute_post h defs V cv cv {?k}" by (rule compute_post_same)
  with True show ?thesis by simp
qed

lemma dependency_ordered_snoc:
  assumes "dependency_ordered E (rev cv)" "k \<notin> fst ` set cv"
    and "\<And>k'. (k, k') \<in> E \<Longrightarrow> k' \<in> fst ` set cv"
  shows "dependency_ordered E (rev (cv @ [(k, v)]))"
  using assms by simp

lemma resolveComputed_post:
  assumes IH: "\<And>d v cv1. \<lbrakk>\<not> has_prop h (JObj cv) k; definitionMap_get defs k = Some d; k \<notin> set V;
        evaluateComputeExpression h defs ctx (k # V) (def_definition d) cv = Inr (v, cv1)\<rbrakk>
      \<Longrightarrow> compute_post h defs (k # V) cv cv1 (compute_refs (def_definition d))"
    and run: "resolveComputed h defs ctx V k cv = Inr (v, cv')"
  shows "compute_post h defs V cv cv' {k}"
proof (cases "has_prop h (JObj cv) k")
  case True
  with run have cv': "cv' = cv" by (simp add: resolveComputed.simps)
  have "k \<in> fst ` set cv" if "plain_keys h defs" "k \<in> def_key ` set defs"
    using that True by (auto simp: plain_keys_def has_prop_JObj keys_iff)
  then have "{k} \<inter> def_key ` set defs \<subseteq> fst ` set cv" if "plain_keys h defs"
    using that by blast
  then show ?thesis unfolding cv' by (rule compute_post_same)
next
  case False
  then have absent: "map_of cv k = None" by (simp add: has_prop_JObj)
  show ?thesis
  proof (cases "definitionMap_get defs k")
    case None
    with run False have cv': "cv' = cv" by (simp add: resolveComputed.simps)
    from None have "k \<notin> def_key ` set defs" using definitionMap_get_keys [of defs k] by simp
    then have "{k} \<inter> def_key ` set defs \<subseteq> fst ` set cv" by blast
    then show ?thesis unfolding cv' by (rule compute_post_same)
  next
    case (Some d)
    with run False have notin: "k \<notin> set V"
      by (auto simp: resolveComputed.simps split: if_splits)
    from run False Some notin obtain cv1 where
      ev: "evaluateComputeExpression h defs ctx (k # V) (def_definition d) cv = Inr (v, cv1)"
      and cv': "cv' = AList.update k v cv1"
      by (auto simp: resolveComputed.simps split: sum.splits)
    note post = IH [OF False Some notin ev]
    from post have ext: "extends cv cv1" and keys: "fst ` set cv1 \<subseteq> fst ` set cv \<union> def_key ` set defs"
      by (simp_all add: compute_post_def)
    from Some have key: "k \<in> def_key ` set defs" by (rule definitionMap_get_key)
    show ?thesis
      unfolding compute_post_def
    proof (intro conjI impI)
      show "extends cv cv'"
        using ext absent unfolding cv' extends_def by (auto simp: update_conv')
      show "fst ` set cv' \<subseteq> fst ` set cv \<union> def_key ` set defs"
        using keys key unfolding cv' by (simp add: dom_update)
    next
      assume a: "plain_keys h defs \<and> dependency_ordered (depends defs) (rev cv)
          \<and> fst ` set cv \<inter> set V = {}"
      from absent have "k \<notin> fst ` set cv" using map_of_keys [of cv k] by simp
      with a have "fst ` set cv \<inter> set (k # V) = {}" by simp
      with a post have ord: "dependency_ordered (depends defs) (rev cv1)"
        and dis: "fst ` set cv1 \<inter> set (k # V) = {}"
        and refs: "compute_refs (def_definition d) \<inter> def_key ` set defs \<subseteq> fst ` set cv1"
        by (simp_all add: compute_post_def)
      from dis have fresh: "k \<notin> fst ` set cv1" by auto
      then have cv'': "cv' = cv1 @ [(k, v)]" unfolding cv' by (rule update_absent)
      have deps: "k' \<in> fst ` set cv1" if "(k, k') \<in> depends defs" for k'
        using that Some refs definitionMap_get_keys [of defs k'] by (auto simp: depends_def)
      show "dependency_ordered (depends defs) (rev cv')"
        unfolding cv'' using ord fresh deps by (rule dependency_ordered_snoc)
      show "fst ` set cv' \<inter> set V = {}" using dis notin unfolding cv'' by auto
      show "{k} \<inter> def_key ` set defs \<subseteq> fst ` set cv'" unfolding cv'' by auto
    qed
  qed
qed


lemma compute_refs_atom: "e = JNull \<or> \<not> typeof_object e \<Longrightarrow> compute_refs e = {}"
  by (subst compute_refs.simps) simp

lemma compute_refs_var:
  "\<not> (e = JNull \<or> \<not> typeof_object e) \<Longrightarrow> kw_in e ''var'' \<Longrightarrow> kw_get e ''var'' = JStr variable \<Longrightarrow>
   compute_refs e =
     (if starts_with ''computed.'' variable then {drop (length ''computed.'') variable} else {})"
  by (subst compute_refs.simps) simp

lemma compute_refs_value:
  "\<not> (e = JNull \<or> \<not> typeof_object e) \<Longrightarrow> \<not> kw_in e ''var'' \<Longrightarrow> kw_in e ''value'' \<Longrightarrow>
   compute_refs e = {}"
  by (subst compute_refs.simps) simp

lemma compute_refs_func:
  "\<not> (e = JNull \<or> \<not> typeof_object e) \<Longrightarrow> \<not> kw_in e ''var'' \<Longrightarrow> \<not> kw_in e ''value'' \<Longrightarrow>
   kw_in e ''func'' \<Longrightarrow> kw_get e ''args'' = JArr xs \<Longrightarrow>
   compute_refs e = (\<Union>x \<in> set xs. compute_refs x)"
  by (subst compute_refs.simps) simp

lemma compute_refs_op:
  "\<not> (e = JNull \<or> \<not> typeof_object e) \<Longrightarrow> \<not> kw_in e ''var'' \<Longrightarrow> \<not> kw_in e ''value'' \<Longrightarrow>
   \<not> kw_in e ''func'' \<Longrightarrow> compute_refs e = op_refs e"
  by (subst compute_refs.simps) (simp add: op_refs_def)

lemma op_refs_subset:
  "\<not> (e = JNull \<or> \<not> typeof_object e) \<Longrightarrow> \<not> kw_in e ''var'' \<Longrightarrow> \<not> kw_in e ''value'' \<Longrightarrow>
   op_refs e \<subseteq> compute_refs e"
  by (subst compute_refs.simps) (auto simp: op_refs_def split: jsval.splits)

lemma evaluate_op_post:
  assumes IH: "\<And>xs vs cv1. \<lbrakk>kw_in e ''op''; kw_get e ''args'' = JArr xs;
        evaluate_args h defs ctx V xs cv = Inr (vs, cv1)\<rbrakk>
      \<Longrightarrow> compute_post h defs V cv cv1 (\<Union>x \<in> set xs. compute_refs x)"
    and run: "evaluate_op h defs ctx V e cv = Inr (v, cv')"
  shows "compute_post h defs V cv cv' (op_refs e)"
proof (cases "kw_in e ''op''")
  case False
  with run have "cv' = cv" by (simp add: evaluate_op.simps)
  with False show ?thesis by (simp add: op_refs_def compute_post_refl_empty)
next
  case True
  with run obtain xs where xs: "kw_get e ''args'' = JArr xs"
    by (cases "kw_get e ''args''") (simp_all add: evaluate_op.simps)
  with run True obtain vs where "evaluate_args h defs ctx V xs cv = Inr (vs, cv')"
    by (auto simp: evaluate_op.simps split: sum.splits)
  from IH [OF True xs this] True xs show ?thesis by (simp add: op_refs_def)
qed

lemma evaluate_args_post:
  assumes IH1: "\<And>v cv1. evaluateComputeExpression h defs ctx V x cv = Inr (v, cv1)
      \<Longrightarrow> compute_post h defs V cv cv1 (compute_refs x)"
    and IH2: "\<And>v cv1 vs cv2. \<lbrakk>evaluateComputeExpression h defs ctx V x cv = Inr (v, cv1);
        evaluate_args h defs ctx V xs cv1 = Inr (vs, cv2)\<rbrakk>
      \<Longrightarrow> compute_post h defs V cv1 cv2 (\<Union>y \<in> set xs. compute_refs y)"
    and run: "evaluate_args h defs ctx V (x # xs) cv = Inr (vs, cv')"
  shows "compute_post h defs V cv cv' (\<Union>y \<in> set (x # xs). compute_refs y)"
proof -
  from run obtain v cv1 where 1: "evaluateComputeExpression h defs ctx V x cv = Inr (v, cv1)"
    by (auto split: sum.splits)
  with run obtain vs' where 2: "evaluate_args h defs ctx V xs cv1 = Inr (vs', cv')"
    by (auto split: sum.splits)
  from compute_post_trans [OF IH1 [OF 1] IH2 [OF 1 2]] show ?thesis by simp
qed

lemma evaluateComputeExpression_post:
  assumes IHvar: "\<And>variable v cv1. \<lbrakk>\<not> (e = JNull \<or> \<not> typeof_object e); kw_in e ''var'';
        kw_get e ''var'' = JStr variable;
        starts_with ''computed.'' variable
          \<and> resolveVariable h variable (ctx\<lparr>computed := cv\<rparr>) = JUndefined;
        resolveComputed h defs ctx V (drop (length ''computed.'') variable) cv = Inr (v, cv1)\<rbrakk>
      \<Longrightarrow> compute_post h defs V cv cv1 {drop (length ''computed.'') variable}"
    and IHargs: "\<And>xs vs cv1. \<lbrakk>\<not> (e = JNull \<or> \<not> typeof_object e); \<not> kw_in e ''var'';
        \<not> kw_in e ''value''; kw_in e ''func''; kw_get e ''args'' = JArr xs;
        evaluate_args h defs ctx V xs cv = Inr (vs, cv1)\<rbrakk>
      \<Longrightarrow> compute_post h defs V cv cv1 (\<Union>x \<in> set xs. compute_refs x)"
    and IHop1: "\<And>xs vs cv1 v cv2. \<lbrakk>\<not> (e = JNull \<or> \<not> typeof_object e); \<not> kw_in e ''var'';
        \<not> kw_in e ''value''; kw_in e ''func''; kw_get e ''args'' = JArr xs;
        evaluate_args h defs ctx V xs cv = Inr (vs, cv1);
        kw_get e ''func'' \<noteq> JStr ''normalize_time''; kw_get e ''func'' \<noteq> JStr ''midpoint'';
        kw_get e ''func'' \<noteq> JStr ''duration''; kw_get e ''func'' \<noteq> JStr ''add_days'';
        evaluate_op h defs ctx V e cv1 = Inr (v, cv2)\<rbrakk>
      \<Longrightarrow> compute_post h defs V cv1 cv2 (op_refs e)"
    and IHop2: "\<And>v cv1. \<lbrakk>\<not> (e = JNull \<or> \<not> typeof_object e); \<not> kw_in e ''var'';
        \<not> kw_in e ''value''; \<not> kw_in e ''func'';
        evaluate_op h defs ctx V e cv = Inr (v, cv1)\<rbrakk>
      \<Longrightarrow> compute_post h defs V cv cv1 (op_refs e)"
    and run: "evaluateComputeExpression h defs ctx V e cv = Inr (v, cv')"
  shows "compute_post h defs V cv cv' (compute_refs e)"
proof (cases "e = JNull \<or> \<not> typeof_object e")
  case True
  with run have "cv' = cv" by (simp add: evaluateComputeExpression.simps)
  with True show ?thesis by (simp add: compute_refs_atom compute_post_refl_empty)
next
  case atom: False
  show ?thesis
  proof (cases "kw_in e ''var''")
    case True
    with run atom obtain variable where var: "kw_get e ''var'' = JStr variable"
      by (cases "kw_get e ''var''") (simp_all add: evaluateComputeExpression.simps)
    note refs = compute_refs_var [OF atom True var]
    show ?thesis
    proof (cases "starts_with ''computed.'' variable
        \<and> resolveVariable h variable (ctx\<lparr>computed := cv\<rparr>) = JUndefined")
      case fallback: True
      with run atom True var
      have "resolveComputed h defs ctx V (drop (length ''computed.'') variable) cv = Inr (v, cv')"
        by (simp add: evaluateComputeExpression.simps Let_def)
      from IHvar [OF atom True var fallback this] fallback show ?thesis by (simp add: refs)
    next
      case direct: False
      with run atom True var have "cv' = cv"
        by (simp add: evaluateComputeExpression.simps Let_def split: if_splits)
      with var_direct_post [OF direct, of defs V] show ?thesis by (simp add: refs)
    qed
  next
    case novar: False
    show ?thesis
    proof (cases "kw_in e ''value''")
      case True
      with run atom novar have "cv' = cv" by (simp add: evaluateComputeExpression.simps)
      with atom novar True show ?thesis by (simp add: compute_refs_value compute_post_refl_empty)
    next
      case novalue: False
      show ?thesis
      proof (cases "kw_in e ''func''")
        case False
        with run atom novar novalue have "evaluate_op h defs ctx V e cv = Inr (v, cv')"
          by (simp add: evaluateComputeExpression.simps)
        from IHop2 [OF atom novar novalue False this] show ?thesis
          by (simp add: compute_refs_op [OF atom novar novalue False])
      next
        case func: True
        with run atom novar novalue obtain xs where xs: "kw_get e ''args'' = JArr xs"
          by (cases "kw_get e ''args''") (simp_all add: evaluateComputeExpression.simps)
        note refs = compute_refs_func [OF atom novar novalue func xs]
        from run atom novar novalue func xs obtain vs cv1 where
          args: "evaluate_args h defs ctx V xs cv = Inr (vs, cv1)"
          by (auto simp: evaluateComputeExpression.simps split: sum.splits)
        note p1 = IHargs [OF atom novar novalue func xs args]
        show ?thesis
        proof (cases "kw_get e ''func'' \<in> {JStr ''normalize_time'', JStr ''midpoint'',
            JStr ''duration'', JStr ''add_days''}")
          case True
          with run atom novar novalue func xs args have "cv' = cv1"
            by (auto simp: evaluateComputeExpression.simps Let_def split: sum.splits if_splits)
          with p1 show ?thesis by (simp add: refs)
        next
          case False
          with run atom novar novalue func xs args
          have op: "evaluate_op h defs ctx V e cv1 = Inr (v, cv')"
            by (simp add: evaluateComputeExpression.simps Let_def)
          from False have n: "kw_get e ''func'' \<noteq> JStr ''normalize_time''"
            "kw_get e ''func'' \<noteq> JStr ''midpoint''" "kw_get e ''func'' \<noteq> JStr ''duration''"
            "kw_get e ''func'' \<noteq> JStr ''add_days''" by simp_all
          note p2 = IHop1 [OF atom novar novalue func xs args n op]
          from compute_post_trans [OF p1 p2]
          have "compute_post h defs V cv cv' (compute_refs e \<union> op_refs e)" by (simp add: refs)
          then show ?thesis by (rule compute_post_weaken) simp
        qed
      qed
    qed
  qed
qed

lemma compute_success:
  "evaluateComputeExpression h defs ctx V e cv = Inr (v, cv') \<Longrightarrow>
     compute_post h defs V cv cv' (compute_refs e)"
  "evaluate_op h defs ctx V e cv = Inr (v, cv') \<Longrightarrow> compute_post h defs V cv cv' (op_refs e)"
  "evaluate_args h defs ctx V xs cv = Inr (vs, cv') \<Longrightarrow>
     compute_post h defs V cv cv' (\<Union>x \<in> set xs. compute_refs x)"
  "resolveComputed h defs ctx V k cv = Inr (v, cv') \<Longrightarrow> compute_post h defs V cv cv' {k}"
proof (induction h defs ctx V e cv and h defs ctx V e cv and h defs ctx V xs cv
    and h defs ctx V k cv arbitrary: v cv' and v cv' and vs cv' and v cv'
    rule: evaluateComputeExpression_evaluate_op_evaluate_args_resolveComputed.induct)
  case (1 h defs ctx visiting expression cv)
  show ?case
  proof (rule evaluateComputeExpression_post [OF _ _ _ _ "1.prems"])
    fix variable v cv1
    assume "\<not> (expression = JNull \<or> \<not> typeof_object expression)" "kw_in expression ''var''"
      "kw_get expression ''var'' = JStr variable"
      "starts_with ''computed.'' variable
          \<and> resolveVariable h variable (ctx\<lparr>computed := cv\<rparr>) = JUndefined"
      "resolveComputed h defs ctx visiting (drop (length ''computed.'') variable) cv = Inr (v, cv1)"
    then show "compute_post h defs visiting cv cv1 {drop (length ''computed.'') variable}"
      by (intro "1.IH"(1) [OF _ _ _ refl]) simp_all
  next
    fix xs vs cv1
    assume "\<not> (expression = JNull \<or> \<not> typeof_object expression)" "\<not> kw_in expression ''var''"
        "\<not> kw_in expression ''value''" "kw_in expression ''func''" "kw_get expression ''args'' = JArr xs"
        "evaluate_args h defs ctx visiting xs cv = Inr (vs, cv1)"
    then show "compute_post h defs visiting cv cv1 (\<Union>x \<in> set xs. compute_refs x)"
      by (intro "1.IH"(2))
  next
    fix xs vs cv1 v cv2
    assume "\<not> (expression = JNull \<or> \<not> typeof_object expression)" "\<not> kw_in expression ''var''"
        "\<not> kw_in expression ''value''" "kw_in expression ''func''" "kw_get expression ''args'' = JArr xs"
        "evaluate_args h defs ctx visiting xs cv = Inr (vs, cv1)"
        "kw_get expression ''func'' \<noteq> JStr ''normalize_time''"
        "kw_get expression ''func'' \<noteq> JStr ''midpoint''"
        "kw_get expression ''func'' \<noteq> JStr ''duration''"
        "kw_get expression ''func'' \<noteq> JStr ''add_days''"
        "evaluate_op h defs ctx visiting expression cv1 = Inr (v, cv2)"
    then show "compute_post h defs visiting cv1 cv2 (op_refs expression)"
      by (intro "1.IH"(3) [OF _ _ _ _ _ _ refl refl])
  next
    fix v cv1
    assume "\<not> (expression = JNull \<or> \<not> typeof_object expression)" "\<not> kw_in expression ''var''"
        "\<not> kw_in expression ''value''" "\<not> kw_in expression ''func''"
        "evaluate_op h defs ctx visiting expression cv = Inr (v, cv1)"
    then show "compute_post h defs visiting cv cv1 (op_refs expression)"
      by (intro "1.IH"(4))
  qed
next
  case (2 h defs ctx visiting expression cv)
  show ?case
    by (rule evaluate_op_post [OF _ "2.prems"]) (rule "2.IH")
next
  case (3 h defs ctx visiting cv)
  then show ?case by (simp add: compute_post_refl_empty)
next
  case (4 h defs ctx visiting x xs cv)
  show ?case
  proof (rule evaluate_args_post [OF _ _ "4.prems"])
    fix v cv1 assume "evaluateComputeExpression h defs ctx visiting x cv = Inr (v, cv1)"
    then show "compute_post h defs visiting cv cv1 (compute_refs x)" by (rule "4.IH"(1))
  next
    fix v cv1 vs cv2
    assume "evaluateComputeExpression h defs ctx visiting x cv = Inr (v, cv1)"
      "evaluate_args h defs ctx visiting xs cv1 = Inr (vs, cv2)"
    then show "compute_post h defs visiting cv1 cv2 (\<Union>y \<in> set xs. compute_refs y)"
      by (intro "4.IH"(2) [OF _ refl])
  qed
next
  case (5 h defs ctx visiting k cv)
  show ?case
    by (rule resolveComputed_post [OF _ "5.prems"]) (rule "5.IH")
qed

lemma resolve_each_post:
  "resolve_each h defs ctx ds cv = Inr cv' \<Longrightarrow> compute_post h defs [] cv cv' (def_key ` set ds)"
proof (induction ds arbitrary: cv)
  case Nil
  then show ?case by (simp add: compute_post_refl_empty)
next
  case (Cons d ds)
  from Cons.prems obtain v cv1 where 1: "resolveComputed h defs ctx [] (def_key d) cv = Inr (v, cv1)"
    by (auto split: sum.splits)
  with Cons.prems have 2: "resolve_each h defs ctx ds cv1 = Inr cv'" by simp
  from compute_post_trans [OF compute_success(4) [OF 1] Cons.IH [OF 2]] show ?case by simp
qed

lemma dependency_ordered_closed:
  assumes "dependency_ordered E l" "k \<in> fst ` set l" "(k, k') \<in> E\<^sup>+"
  shows "k' \<in> fst ` set l \<and> k' \<noteq> k"
  using assms
proof (induction l arbitrary: k k')
  case Nil
  then show ?case by simp
next
  case (Cons p older)
  obtain k0 v where p: "p = (k0, v)" by (cases p)
  from Cons.prems(1) p have fresh: "k0 \<notin> fst ` set older"
    and succ: "\<And>j. (k0, j) \<in> E \<Longrightarrow> j \<in> fst ` set older"
    and ord: "dependency_ordered E older" by auto
  have inside: "j' \<in> fst ` set older \<and> j' \<noteq> j" if "j \<in> fst ` set older" "(j, j') \<in> E\<^sup>+" for j j'
    using Cons.IH [OF ord that] .
  show ?case
  proof (cases "k = k0")
    case False
    with Cons.prems(2) p have "k \<in> fst ` set older" by auto
    from inside [OF this Cons.prems(3)] show ?thesis by auto
  next
    case True
    from tranclD [OF Cons.prems(3)] obtain j where first: "(k, j) \<in> E" and rest: "(j, k') \<in> E\<^sup>*"
      by blast
    from succ first True have j: "j \<in> fst ` set older" by simp
    from rest have "k' \<in> fst ` set older"
    proof (cases rule: rtranclE [case_names base step])
      case base
      with j show ?thesis by simp
    next
      case (step y)
      then have "(j, k') \<in> E\<^sup>+" by (simp add: rtrancl_into_trancl1)
      from inside [OF j this] show ?thesis by simp
    qed
    with fresh True show ?thesis by auto
  qed
qed

lemma computeDefinitions_ordered:
  assumes plain: "plain_keys h defs" and empty: "computed ctx = []"
    and run: "computeDefinitions h defs ctx = Inr result"
  shows "def_key ` set defs \<subseteq> fst ` set result \<and> dependency_ordered (depends defs) (rev result)"
proof -
  from run empty have "resolve_each h defs ctx defs [] = Inr result"
    by (simp add: computeDefinitions_def)
  from resolve_each_post [OF this] plain show ?thesis
    by (simp add: compute_post_def)
qed

lemma computeDefinitions_no_cycle:
  assumes plain: "plain_keys h defs" and empty: "computed ctx = []"
    and run: "computeDefinitions h defs ctx = Inr result"
    and start: "d \<in> set defs" and reach: "(def_key d, k) \<in> (depends defs)\<^sup>*"
    and cycle: "(k, k) \<in> (depends defs)\<^sup>+"
  shows False
proof -
  from computeDefinitions_ordered [OF plain empty run] start
  have ord: "dependency_ordered (depends defs) (rev result)"
    and d: "def_key d \<in> fst ` set (rev result)" by auto
  from reach have "k \<in> fst ` set (rev result)"
  proof (cases rule: rtranclE [case_names base step])
    case base
    with d show ?thesis by simp
  next
    case (step y)
    then have "(def_key d, k) \<in> (depends defs)\<^sup>+" by (simp add: rtrancl_into_trancl1)
    from dependency_ordered_closed [OF ord d this] show ?thesis by simp
  qed
  from dependency_ordered_closed [OF ord this cycle] show False by simp
qed

lemma chain_pre_subset: "chain_pre defs V G \<Longrightarrow> G' \<subseteq> G \<Longrightarrow> chain_pre defs V G'"
  unfolding chain_pre_def by blast

lemma addDaysToDate_error: "addDaysToDate h a b = Inl e \<Longrightarrow> e = RangeError"
  by (auto simp: addDaysToDate_def Let_def split: jsval.splits jsnum.splits option.splits if_splits)

lemma chain_pre_visit:
  assumes pre: "chain_pre defs V {k}" and def: "definitionMap_get defs k = Some d"
  shows "chain_pre defs (k # V) (compute_refs (def_definition d))"
  unfolding chain_pre_def
proof (intro ballI impI)
  fix u k'
  assume u: "u \<in> set (k # V)" and k': "k' \<in> compute_refs (def_definition d)"
    and has: "definitionMap_get defs k' \<noteq> None"
  from def k' has have edge: "(k, k') \<in> depends defs" by (auto simp: depends_def)
  show "(u, k') \<in> (depends defs)\<^sup>+"
  proof (cases "u = k")
    case True
    with edge show ?thesis by auto
  next
    case False
    with u have "u \<in> set V" by simp
    with pre def have "(u, k) \<in> (depends defs)\<^sup>+" by (simp add: chain_pre_def)
    from this edge show ?thesis by (rule trancl_into_trancl)
  qed
qed

lemma compute_cycle_sound:
  "evaluateComputeExpression h defs ctx V e cv = Inl (CircularDependency c) \<Longrightarrow>
     chain_pre defs V (compute_refs e) \<Longrightarrow> (c, c) \<in> (depends defs)\<^sup>+"
  "evaluate_op h defs ctx V e cv = Inl (CircularDependency c) \<Longrightarrow>
     chain_pre defs V (op_refs e) \<Longrightarrow> (c, c) \<in> (depends defs)\<^sup>+"
  "evaluate_args h defs ctx V xs cv = Inl (CircularDependency c) \<Longrightarrow>
     chain_pre defs V (\<Union>x \<in> set xs. compute_refs x) \<Longrightarrow> (c, c) \<in> (depends defs)\<^sup>+"
  "resolveComputed h defs ctx V k cv = Inl (CircularDependency c) \<Longrightarrow>
     chain_pre defs V {k} \<Longrightarrow> (c, c) \<in> (depends defs)\<^sup>+"
proof (induction h defs ctx V e cv and h defs ctx V e cv and h defs ctx V xs cv
    and h defs ctx V k cv
    rule: evaluateComputeExpression_evaluate_op_evaluate_args_resolveComputed.induct)
  case (1 h defs ctx visiting expression cv)
  note run = "1.prems"(1) and pre = "1.prems"(2)
  have atom: "\<not> (expression = JNull \<or> \<not> typeof_object expression)"
  proof
    assume "expression = JNull \<or> \<not> typeof_object expression"
    with run show False by (simp add: evaluateComputeExpression.simps)
  qed
  show ?case
  proof (cases "kw_in expression ''var''")
    case True
    with run atom obtain variable where var: "kw_get expression ''var'' = JStr variable"
      by (cases "kw_get expression ''var''") (simp_all add: evaluateComputeExpression.simps)
    have fallback: "starts_with ''computed.'' variable
        \<and> resolveVariable h variable (ctx\<lparr>computed := cv\<rparr>) = JUndefined"
    proof (rule ccontr)
      assume "\<not> (starts_with ''computed.'' variable
        \<and> resolveVariable h variable (ctx\<lparr>computed := cv\<rparr>) = JUndefined)"
      with run atom True var show False
        by (simp add: evaluateComputeExpression.simps Let_def split: if_splits)
    qed
    with run atom True var
    have res: "resolveComputed h defs ctx visiting (drop (length ''computed.'') variable) cv
        = Inl (CircularDependency c)"
      by (simp add: evaluateComputeExpression.simps Let_def)
    from pre fallback have "chain_pre defs visiting {drop (length ''computed.'') variable}"
      by (simp add: compute_refs_var [OF atom True var])
    from "1.IH"(1) [OF atom True var refl fallback res this] show ?thesis .
  next
    case novar: False
    have novalue: "\<not> kw_in expression ''value''"
    proof
      assume "kw_in expression ''value''"
      with run atom novar show False by (simp add: evaluateComputeExpression.simps)
    qed
    show ?thesis
    proof (cases "kw_in expression ''func''")
      case False
      with run atom novar novalue
      have op: "evaluate_op h defs ctx visiting expression cv = Inl (CircularDependency c)"
        by (simp add: evaluateComputeExpression.simps)
      from pre have "chain_pre defs visiting (op_refs expression)"
        by (simp add: compute_refs_op [OF atom novar novalue False])
      from "1.IH"(4) [OF atom novar novalue False op this] show ?thesis .
    next
      case func: True
      with run atom novar novalue obtain xs where xs: "kw_get expression ''args'' = JArr xs"
        by (cases "kw_get expression ''args''") (simp_all add: evaluateComputeExpression.simps)
      from pre have pre_args: "chain_pre defs visiting (\<Union>x \<in> set xs. compute_refs x)"
        by (simp add: compute_refs_func [OF atom novar novalue func xs])
      show ?thesis
      proof (cases "evaluate_args h defs ctx visiting xs cv")
        case (Inl err)
        with run atom novar novalue func xs have "err = CircularDependency c"
          by (simp add: evaluateComputeExpression.simps)
        with Inl "1.IH"(2) [OF atom novar novalue func xs _ pre_args] show ?thesis by simp
      next
        case (Inr b)
        obtain vs cv1 where b: "b = (vs, cv1)" by (cases b)
        show ?thesis
        proof (cases "kw_get expression ''func'' \<in> {JStr ''normalize_time'', JStr ''midpoint'',
            JStr ''duration'', JStr ''add_days''}")
          case True
          with run atom novar novalue func xs Inr b show ?thesis
            by (auto simp: evaluateComputeExpression.simps Let_def split: sum.splits if_splits
                dest: addDaysToDate_error)
        next
          case False
          with run atom novar novalue func xs Inr b
          have op: "evaluate_op h defs ctx visiting expression cv1 = Inl (CircularDependency c)"
            by (simp add: evaluateComputeExpression.simps Let_def)
          from False have n: "kw_get expression ''func'' \<noteq> JStr ''normalize_time''"
            "kw_get expression ''func'' \<noteq> JStr ''midpoint''"
            "kw_get expression ''func'' \<noteq> JStr ''duration''"
            "kw_get expression ''func'' \<noteq> JStr ''add_days''" by simp_all
          from pre op_refs_subset [OF atom novar novalue]
          have "chain_pre defs visiting (op_refs expression)" by (rule chain_pre_subset)
          from "1.IH"(3) [OF atom novar novalue func xs Inr b [symmetric] refl n op this]
          show ?thesis .
        qed
      qed
    qed
  qed
next
  case (2 h defs ctx visiting expression cv)
  note run = "2.prems"(1) and pre = "2.prems"(2)
  have op: "kw_in expression ''op''"
  proof (rule ccontr)
    assume "\<not> kw_in expression ''op''"
    with run show False by (simp add: evaluate_op.simps)
  qed
  with run obtain xs where xs: "kw_get expression ''args'' = JArr xs"
    by (cases "kw_get expression ''args''") (simp_all add: evaluate_op.simps)
  with run op have args: "evaluate_args h defs ctx visiting xs cv = Inl (CircularDependency c)"
    by (auto simp: evaluate_op.simps split: sum.splits)
  from pre op xs have "chain_pre defs visiting (\<Union>x \<in> set xs. compute_refs x)"
    by (simp add: op_refs_def)
  from "2.IH" [OF op xs args this] show ?case .
next
  case (3 h defs ctx visiting cv)
  then show ?case by simp
next
  case (4 h defs ctx visiting x xs cv)
  note run = "4.prems"(1) and pre = "4.prems"(2)
  show ?case
  proof (cases "evaluateComputeExpression h defs ctx visiting x cv")
    case (Inl err)
    with run have "err = CircularDependency c" by simp
    moreover from pre have "chain_pre defs visiting (compute_refs x)"
      by (rule chain_pre_subset) simp
    ultimately show ?thesis using Inl "4.IH"(1) by simp
  next
    case (Inr b)
    obtain v cv1 where b: "b = (v, cv1)" by (cases b)
    from run Inr b have rest: "evaluate_args h defs ctx visiting xs cv1 = Inl (CircularDependency c)"
      by (auto split: sum.splits)
    from pre have "chain_pre defs visiting (\<Union>y \<in> set xs. compute_refs y)"
      by (rule chain_pre_subset) auto
    from "4.IH"(2) [OF Inr b [symmetric] rest this] show ?thesis .
  qed
next
  case (5 h defs ctx visiting k cv)
  note run = "5.prems"(1) and pre = "5.prems"(2)
  have noprop: "\<not> has_prop h (JObj cv) k"
  proof
    assume "has_prop h (JObj cv) k"
    with run show False by (simp add: resolveComputed.simps)
  qed
  with run obtain d where d: "definitionMap_get defs k = Some d"
    by (cases "definitionMap_get defs k") (simp_all add: resolveComputed.simps)
  show ?case
  proof (cases "k \<in> set visiting")
    case True
    with run noprop d have "c = k" by (simp add: resolveComputed.simps)
    with pre True d show ?thesis by (simp add: chain_pre_def)
  next
    case False
    with run noprop d
    have ev: "evaluateComputeExpression h defs ctx (k # visiting) (def_definition d) cv
        = Inl (CircularDependency c)"
      by (auto simp: resolveComputed.simps split: sum.splits)
    from "5.IH" [OF noprop d False ev chain_pre_visit [OF pre d]] show ?thesis .
  qed
qed

lemma resolve_each_cycle_sound:
  "resolve_each h defs ctx ds cv = Inl (CircularDependency c) \<Longrightarrow> (c, c) \<in> (depends defs)\<^sup>+"
proof (induction ds arbitrary: cv)
  case Nil
  then show ?case by simp
next
  case (Cons d ds)
  show ?case
  proof (cases "resolveComputed h defs ctx [] (def_key d) cv")
    case (Inl err)
    with Cons.prems have "resolveComputed h defs ctx [] (def_key d) cv = Inl (CircularDependency c)"
      by simp
    moreover have "chain_pre defs [] {def_key d}" by (simp add: chain_pre_def)
    ultimately show ?thesis by (rule compute_cycle_sound(4))
  next
    case (Inr b)
    obtain v cv1 where "b = (v, cv1)" by (cases b)
    with Cons.prems Inr have "resolve_each h defs ctx ds cv1 = Inl (CircularDependency c)" by simp
    then show ?thesis by (rule Cons.IH)
  qed
qed

lemma safe_compute_var:
  "\<not> (e = JNull \<or> \<not> typeof_object e) \<Longrightarrow> kw_in e ''var'' \<Longrightarrow> safe_compute e \<Longrightarrow>
   \<exists>variable. kw_get e ''var'' = JStr variable"
  by (subst (asm) safe_compute.simps) (simp split: jsval.splits)

lemma safe_compute_args:
  "\<not> (e = JNull \<or> \<not> typeof_object e) \<Longrightarrow> \<not> kw_in e ''var'' \<Longrightarrow> \<not> kw_in e ''value'' \<Longrightarrow>
   kw_in e ''func'' \<or> kw_in e ''op'' \<Longrightarrow> safe_compute e \<Longrightarrow>
   \<exists>xs. kw_get e ''args'' = JArr xs \<and> (\<forall>x \<in> set xs. safe_compute x)
        \<and> kw_get e ''func'' \<noteq> JStr ''add_days''"
  by (subst (asm) safe_compute.simps) (auto split: jsval.splits)

lemma definitionMap_get_mem: "definitionMap_get defs k = Some d \<Longrightarrow> d \<in> set defs"
  unfolding definitionMap_get_def by (auto dest: map_of_SomeD)

lemma compute_safe_errors:
  "evaluateComputeExpression h defs ctx V e cv = Inl err \<Longrightarrow>
     \<forall>d \<in> set defs. safe_compute (def_definition d) \<Longrightarrow> safe_compute e \<Longrightarrow>
     \<exists>c. err = CircularDependency c"
  "evaluate_op h defs ctx V e cv = Inl err \<Longrightarrow>
     \<forall>d \<in> set defs. safe_compute (def_definition d) \<Longrightarrow>
     \<exists>xs. kw_get e ''args'' = JArr xs \<and> (\<forall>x \<in> set xs. safe_compute x) \<Longrightarrow>
     \<exists>c. err = CircularDependency c"
  "evaluate_args h defs ctx V xs cv = Inl err \<Longrightarrow>
     \<forall>d \<in> set defs. safe_compute (def_definition d) \<Longrightarrow> \<forall>x \<in> set xs. safe_compute x \<Longrightarrow>
     \<exists>c. err = CircularDependency c"
  "resolveComputed h defs ctx V k cv = Inl err \<Longrightarrow>
     \<forall>d \<in> set defs. safe_compute (def_definition d) \<Longrightarrow>
     \<exists>c. err = CircularDependency c"
proof (induction h defs ctx V e cv and h defs ctx V e cv and h defs ctx V xs cv
    and h defs ctx V k cv
    rule: evaluateComputeExpression_evaluate_op_evaluate_args_resolveComputed.induct)
  case (1 h defs ctx visiting expression cv)
  note run = "1.prems"(1) and safe_defs = "1.prems"(2) and safe = "1.prems"(3)
  have atom: "\<not> (expression = JNull \<or> \<not> typeof_object expression)"
  proof
    assume "expression = JNull \<or> \<not> typeof_object expression"
    with run show False by (simp add: evaluateComputeExpression.simps)
  qed
  show ?case
  proof (cases "kw_in expression ''var''")
    case True
    from safe_compute_var [OF atom True safe] obtain variable where
      var: "kw_get expression ''var'' = JStr variable" by blast
    have fallback: "starts_with ''computed.'' variable
        \<and> resolveVariable h variable (ctx\<lparr>computed := cv\<rparr>) = JUndefined"
    proof (rule ccontr)
      assume "\<not> (starts_with ''computed.'' variable
        \<and> resolveVariable h variable (ctx\<lparr>computed := cv\<rparr>) = JUndefined)"
      with run atom True var show False
        by (simp add: evaluateComputeExpression.simps Let_def split: if_splits)
    qed
    with run atom True var
    have res: "resolveComputed h defs ctx visiting (drop (length ''computed.'') variable) cv = Inl err"
      by (simp add: evaluateComputeExpression.simps Let_def)
    from "1.IH"(1) [OF atom True var refl fallback res safe_defs] show ?thesis .
  next
    case novar: False
    have novalue: "\<not> kw_in expression ''value''"
    proof
      assume "kw_in expression ''value''"
      with run atom novar show False by (simp add: evaluateComputeExpression.simps)
    qed
    have fo: "kw_in expression ''func'' \<or> kw_in expression ''op''"
    proof (rule ccontr)
      assume "\<not> (kw_in expression ''func'' \<or> kw_in expression ''op'')"
      with run atom novar novalue show False
        by (simp add: evaluateComputeExpression.simps evaluate_op.simps)
    qed
    from safe_compute_args [OF atom novar novalue fo safe] obtain xs where
      xs: "kw_get expression ''args'' = JArr xs" and safe_xs: "\<forall>x \<in> set xs. safe_compute x"
      and noadd: "kw_get expression ''func'' \<noteq> JStr ''add_days''" by blast
    from xs safe_xs have safe_op: "\<exists>xs. kw_get expression ''args'' = JArr xs \<and> (\<forall>x \<in> set xs. safe_compute x)"
      by blast
    show ?thesis
    proof (cases "kw_in expression ''func''")
      case False
      with run atom novar novalue
      have op: "evaluate_op h defs ctx visiting expression cv = Inl err"
        by (simp add: evaluateComputeExpression.simps)
      from "1.IH"(4) [OF atom novar novalue False op safe_defs safe_op] show ?thesis .
    next
      case func: True
      show ?thesis
      proof (cases "evaluate_args h defs ctx visiting xs cv")
        case (Inl err')
        with run atom novar novalue func xs have "err' = err"
          by (simp add: evaluateComputeExpression.simps)
        with Inl "1.IH"(2) [OF atom novar novalue func xs _ safe_defs safe_xs] show ?thesis by simp
      next
        case (Inr b)
        obtain vs cv1 where b: "b = (vs, cv1)" by (cases b)
        show ?thesis
        proof (cases "kw_get expression ''func'' \<in> {JStr ''normalize_time'', JStr ''midpoint'',
            JStr ''duration''}")
          case True
          with run atom novar novalue func xs Inr b show ?thesis
            by (auto simp: evaluateComputeExpression.simps Let_def split: if_splits)
        next
          case False
          with run atom novar novalue func xs Inr b noadd
          have op: "evaluate_op h defs ctx visiting expression cv1 = Inl err"
            by (simp add: evaluateComputeExpression.simps Let_def)
          from False have n: "kw_get expression ''func'' \<noteq> JStr ''normalize_time''"
            "kw_get expression ''func'' \<noteq> JStr ''midpoint''"
            "kw_get expression ''func'' \<noteq> JStr ''duration''" by simp_all
          from "1.IH"(3) [OF atom novar novalue func xs Inr b [symmetric] refl n noadd op safe_defs safe_op]
          show ?thesis .
        qed
      qed
    qed
  qed
next
  case (2 h defs ctx visiting expression cv)
  note run = "2.prems"(1) and safe_defs = "2.prems"(2) and safe = "2.prems"(3)
  have op: "kw_in expression ''op''"
  proof (rule ccontr)
    assume "\<not> kw_in expression ''op''"
    with run show False by (simp add: evaluate_op.simps)
  qed
  from safe obtain xs where xs: "kw_get expression ''args'' = JArr xs"
    and safe_xs: "\<forall>x \<in> set xs. safe_compute x" by blast
  with run op have args: "evaluate_args h defs ctx visiting xs cv = Inl err"
    by (auto simp: evaluate_op.simps split: sum.splits)
  from "2.IH" [OF op xs args safe_defs safe_xs] show ?case .
next
  case (3 h defs ctx visiting cv)
  then show ?case by simp
next
  case (4 h defs ctx visiting x xs cv)
  note run = "4.prems"(1) and safe_defs = "4.prems"(2) and safe = "4.prems"(3)
  show ?case
  proof (cases "evaluateComputeExpression h defs ctx visiting x cv")
    case (Inl err')
    with run have "err' = err" by simp
    with Inl "4.IH"(1) [OF _ safe_defs] safe show ?thesis by simp
  next
    case (Inr b)
    obtain v cv1 where b: "b = (v, cv1)" by (cases b)
    from run Inr b have rest: "evaluate_args h defs ctx visiting xs cv1 = Inl err"
      by (auto split: sum.splits)
    from safe have "\<forall>y \<in> set xs. safe_compute y" by simp
    from "4.IH"(2) [OF Inr b [symmetric] rest safe_defs this] show ?thesis .
  qed
next
  case (5 h defs ctx visiting k cv)
  note run = "5.prems"(1) and safe_defs = "5.prems"(2)
  have noprop: "\<not> has_prop h (JObj cv) k"
  proof
    assume "has_prop h (JObj cv) k"
    with run show False by (simp add: resolveComputed.simps)
  qed
  with run obtain d where d: "definitionMap_get defs k = Some d"
    by (cases "definitionMap_get defs k") (simp_all add: resolveComputed.simps)
  show ?case
  proof (cases "k \<in> set visiting")
    case True
    with run noprop d show ?thesis by (auto simp: resolveComputed.simps)
  next
    case False
    with run noprop d
    have ev: "evaluateComputeExpression h defs ctx (k # visiting) (def_definition d) cv = Inl err"
      by (auto simp: resolveComputed.simps split: sum.splits)
    from safe_defs definitionMap_get_mem [OF d] have "safe_compute (def_definition d)" by simp
    from "5.IH" [OF noprop d False ev safe_defs this] show ?thesis .
  qed
qed
lemma computeDefinitions_cycle_sound:
  "computeDefinitions h defs ctx = Inl (CircularDependency c) \<Longrightarrow> (c, c) \<in> (depends defs)\<^sup>+"
  unfolding computeDefinitions_def by (rule resolve_each_cycle_sound)

lemma resolve_each_safe_errors:
  "resolve_each h defs ctx ds cv = Inl err \<Longrightarrow> \<forall>d \<in> set defs. safe_compute (def_definition d) \<Longrightarrow>
   \<exists>c. err = CircularDependency c"
proof (induction ds arbitrary: cv)
  case Nil
  then show ?case by simp
next
  case (Cons d ds)
  show ?case
  proof (cases "resolveComputed h defs ctx [] (def_key d) cv")
    case (Inl err')
    with Cons.prems(1) have "resolveComputed h defs ctx [] (def_key d) cv = Inl err" by simp
    from compute_safe_errors(4) [OF this Cons.prems(2)] show ?thesis .
  next
    case (Inr b)
    obtain v cv1 where "b = (v, cv1)" by (cases b)
    with Cons.prems(1) Inr have "resolve_each h defs ctx ds cv1 = Inl err" by simp
    from Cons.IH [OF this Cons.prems(2)] show ?thesis .
  qed
qed

lemma computeDefinitions_cycle_fails:
  assumes plain: "plain_keys h defs" and empty: "computed ctx = []"
    and start: "d \<in> set defs" and reach: "(def_key d, k) \<in> (depends defs)\<^sup>*"
    and cycle: "(k, k) \<in> (depends defs)\<^sup>+"
  shows "\<exists>e. computeDefinitions h defs ctx = Inl e
    \<and> (\<forall>c. e = CircularDependency c \<longrightarrow> (c, c) \<in> (depends defs)\<^sup>+)
    \<and> ((\<forall>d \<in> set defs. safe_compute (def_definition d)) \<longrightarrow> (\<exists>c. e = CircularDependency c))"
proof (cases "computeDefinitions h defs ctx")
  case (Inr result)
  from computeDefinitions_no_cycle [OF plain empty Inr start reach cycle] show ?thesis ..
next
  case (Inl e)
  have "(c, c) \<in> (depends defs)\<^sup>+" if "e = CircularDependency c" for c
    using Inl that by (simp add: computeDefinitions_cycle_sound)
  moreover have "\<exists>c. e = CircularDependency c" if "\<forall>d \<in> set defs. safe_compute (def_definition d)"
    using Inl that unfolding computeDefinitions_def by (rule resolve_each_safe_errors)
  ultimately show ?thesis using Inl by blast
qed



lemma cycle_definitions_selected:
  "select_compute_definitions ref_host cycle_db ''study-42'' = cycle_definitions"
  by code_simp

lemma cycle_definitions_depends:
  "(''a'', ''b'') \<in> depends cycle_definitions" "(''b'', ''a'') \<in> depends cycle_definitions"
proof -
  have a: "definitionMap_get cycle_definitions ''a''
      = Some \<lparr>def_key = ''a'', def_type = ''number'', def_definition = val_computed_plus_1 ''b''\<rparr>"
    by code_simp
  have b: "definitionMap_get cycle_definitions ''b''
      = Some \<lparr>def_key = ''b'', def_type = ''number'', def_definition = val_computed_plus_1 ''a''\<rparr>"
    by code_simp
  have ra: "''b'' \<in> compute_refs (val_computed_plus_1 ''b'')" by code_simp
  have rb: "''a'' \<in> compute_refs (val_computed_plus_1 ''a'')" by code_simp
  from a b ra show "(''a'', ''b'') \<in> depends cycle_definitions" by (auto simp: depends_def)
  from a b rb show "(''b'', ''a'') \<in> depends cycle_definitions" by (auto simp: depends_def)
qed


end
